theory Spec2Isabelle
  imports Main "HOL-Library.Word" "HOL-Library.Sublist"
begin

unbundle bit_operations_syntax

section \<open>Buffers and the heap\<close>

text \<open>
  A Node.js \<^verbatim>\<open>Buffer\<close> is a mutable array of bytes that is passed by reference.
  The heap is the list of all buffers allocated so far; a reference is an index
  into it. JavaScript has no dangling references, so a reference held by the
  program is always below the length of the heap.
\<close>

type_synonym byte = "8 word"
type_synonym bytes = "byte list"
type_synonym addr = nat
type_synonym heap = "bytes list"

text \<open>The contents of the buffer behind a reference.\<close>

definition buf :: "heap \<Rightarrow> addr \<Rightarrow> bytes" where
  "buf h a = (if a < length h then h ! a else [])"

text \<open>
  \<^verbatim>\<open>Buffer.from(buffer)\<close> on a buffer allocates a new buffer and copies the bytes
  into it. The new reference is the first unused one.
\<close>

definition Buffer_from :: "heap \<Rightarrow> addr \<Rightarrow> addr \<times> heap" where
  "Buffer_from h buffer = (length h, h @ [buf h buffer])"

text \<open>
  Allocation of a buffer with given contents (the result of
  \<^verbatim>\<open>fs.promises.readFile\<close> and of \<^verbatim>\<open>Buffer.from(pdfBytes)\<close> on a fresh array).
\<close>

definition alloc :: "heap \<Rightarrow> bytes \<Rightarrow> addr \<times> heap" where
  "alloc h bs = (length h, h @ [bs])"

text \<open>
  Reading \<^verbatim>\<open>data[i]\<close> as an operand of \<^verbatim>\<open>^\<close>: an index out of range reads
  \<^verbatim>\<open>undefined\<close>, which \<^verbatim>\<open>^\<close> converts to 0.
\<close>

definition byte_at :: "bytes \<Rightarrow> nat \<Rightarrow> byte" where
  "byte_at bs i = (if i < length bs then bs ! i else 0)"

text \<open>
  \<^verbatim>\<open>xorKey[i % keyLen]\<close> as an operand of \<^verbatim>\<open>^\<close>. With an empty key the index is
  \<^verbatim>\<open>NaN\<close>, the read is \<^verbatim>\<open>undefined\<close> and the operand is 0.
\<close>

definition key_at :: "bytes \<Rightarrow> nat \<Rightarrow> byte" where
  "key_at xorKey i = (if xorKey = [] then 0 else xorKey ! (i mod length xorKey))"

text \<open>
  The loop body \<^verbatim>\<open>data[i] = data[i] ^ xorKey[i % keyLen]\<close>: an in-place write to
  the buffer behind \<open>data\<close>. A write beyond the end of a typed array is ignored,
  as \<open>list_update\<close> does.
\<close>

definition xor_step :: "heap \<Rightarrow> addr \<Rightarrow> bytes \<Rightarrow> nat \<Rightarrow> heap" where
  "xor_step h data xorKey i =
     h[data := (buf h data)[i := byte_at (buf h data) i XOR key_at xorKey i]]"

section \<open>Byte obfuscation codec (lib/controllers.js)\<close>

text \<open>First loop: \<^verbatim>\<open>for (let i = 0; i < fullEncryptLen; i++)\<close>.\<close>

function xor_full :: "heap \<Rightarrow> addr \<Rightarrow> bytes \<Rightarrow> nat \<Rightarrow> nat \<Rightarrow> heap" where
  "xor_full h data xorKey i fullEncryptLen =
     (if i < fullEncryptLen
      then xor_full (xor_step h data xorKey i) data xorKey (i + 1) fullEncryptLen
      else h)"
  by pat_completeness auto
termination
  by (relation "measure (\<lambda>(h, data, xorKey, i, n). n - i)") auto

text \<open>Second loop: \<^verbatim>\<open>for (let i = fullEncryptLen; i < data.length; i += 50)\<close>.\<close>

function xor_stride :: "heap \<Rightarrow> addr \<Rightarrow> bytes \<Rightarrow> nat \<Rightarrow> heap" where
  "xor_stride h data xorKey i =
     (if i < length (buf h data)
      then xor_stride (xor_step h data xorKey i) data xorKey (i + 50)
      else h)"
  by pat_completeness auto
termination
  by (relation "measure (\<lambda>(h, data, xorKey, i). length (buf h data) - i)")
     (auto simp: xor_step_def buf_def split: if_splits)

declare xor_full.simps [simp del] xor_stride.simps [simp del]

definition partialXorEncode :: "heap \<Rightarrow> addr \<Rightarrow> bytes \<Rightarrow> addr \<times> heap" where
  "partialXorEncode h buffer xorKey =
     (let (data, h1) = Buffer_from h buffer;
          fullEncryptLen = min 10240 (length (buf h1 data));
          h2 = xor_full h1 data xorKey 0 fullEncryptLen;
          h3 = xor_stride h2 data xorKey fullEncryptLen
      in (data, h3))"

section \<open>The \<^verbatim>\<open>path\<close> module of Node.js (POSIX)\<close>

text \<open>
  The handlers call \<^verbatim>\<open>path.basename\<close>, \<^verbatim>\<open>path.join\<close> and \<^verbatim>\<open>path.resolve\<close> of the
  Node.js standard library. They are modelled by what the POSIX variant of the
  library computes: the only separator is the slash, a path is a sequence of
  segments, empty segments and \<^verbatim>\<open>.\<close> are dropped, and \<^verbatim>\<open>..\<close> removes the segment
  before it.
\<close>

text \<open>
  \<^verbatim>\<open>path.basename(p)\<close>: trailing slashes are ignored; the result is what follows
  the last remaining slash.
\<close>

definition path_basename :: "string \<Rightarrow> string" where
  "path_basename p =
     rev (takeWhile (\<lambda>c. c \<noteq> CHR ''/'') (dropWhile (\<lambda>c. c = CHR ''/'') (rev p)))"

text \<open>The segments of a path, separated by slashes.\<close>

fun split_slash :: "string \<Rightarrow> string list" where
  "split_slash [] = [[]]"
| "split_slash (c # cs) =
     (if c = CHR ''/'' then [] # split_slash cs
      else (case split_slash cs of
              [] \<Rightarrow> [[c]]
            | s # ss \<Rightarrow> (c # s) # ss))"

fun join_slash :: "string list \<Rightarrow> string" where
  "join_slash [] = []"
| "join_slash [s] = s"
| "join_slash (s # t # ss) = s @ ''/'' @ join_slash (t # ss)"

text \<open>
  The library's \<^verbatim>\<open>normalizeString\<close> on segments; \<open>res\<close> is the stack of the
  segments kept so far, the last one first.
\<close>

fun normalize_segments :: "bool \<Rightarrow> string list \<Rightarrow> string list \<Rightarrow> string list" where
  "normalize_segments allowAboveRoot res [] = rev res"
| "normalize_segments allowAboveRoot res (s # ss) =
     (if s = [] \<or> s = ''.'' then normalize_segments allowAboveRoot res ss
      else if s = ''..'' then
        (case res of
           [] \<Rightarrow> normalize_segments allowAboveRoot (if allowAboveRoot then [''..''] else []) ss
         | r # rs \<Rightarrow>
             if r = ''..''
             then normalize_segments allowAboveRoot (if allowAboveRoot then ''..'' # res else res) ss
             else normalize_segments allowAboveRoot rs ss)
      else normalize_segments allowAboveRoot (s # res) ss)"

definition normalizeString :: "string \<Rightarrow> bool \<Rightarrow> string" where
  "normalizeString p allowAboveRoot =
     join_slash (normalize_segments allowAboveRoot [] (split_slash p))"

definition path_normalize :: "string \<Rightarrow> string" where
  "path_normalize p =
     (if p = [] then ''.''
      else
        (let isAbsolute = (hd p = CHR ''/'');
             trailingSeparator = (last p = CHR ''/'');
             q = normalizeString p (\<not> isAbsolute)
         in if q = [] then (if isAbsolute then ''/'' else if trailingSeparator then ''./'' else ''.'')
            else (if isAbsolute then ''/'' else []) @ q @ (if trailingSeparator then ''/'' else [])))"

text \<open>\<^verbatim>\<open>path.join(...args)\<close>: the non-empty arguments, joined by slashes, normalized.\<close>

definition path_join :: "string list \<Rightarrow> string" where
  "path_join args =
     (case filter (\<lambda>a. a \<noteq> []) args of
        [] \<Rightarrow> ''.''
      | a # as \<Rightarrow> path_normalize (join_slash (a # as)))"

text \<open>
  \<^verbatim>\<open>path.resolve(p)\<close> with one argument; \<open>cwd\<close> is what \<^verbatim>\<open>process.cwd()\<close> returns,
  used when \<open>p\<close> is not absolute.
\<close>

definition path_resolve :: "string \<Rightarrow> string \<Rightarrow> string" where
  "path_resolve cwd p =
     (let (r1, abs1) = (if p = [] then ([], False) else (p @ ''/'', hd p = CHR ''/''));
          (r2, abs2) = (if abs1 \<or> cwd = [] then (r1, abs1)
                        else (cwd @ ''/'' @ r1, hd cwd = CHR ''/''));
          resolvedPath = normalizeString r2 (\<not> abs2)
      in if abs2 then ''/'' @ resolvedPath
         else if resolvedPath \<noteq> [] then resolvedPath else ''.'')"

text \<open>\<^verbatim>\<open>s.includes(t)\<close> and \<^verbatim>\<open>s.startsWith(t)\<close> on strings.\<close>

definition str_includes :: "string \<Rightarrow> string \<Rightarrow> bool" where
  "str_includes s t = sublist t s"

definition startsWith :: "string \<Rightarrow> string \<Rightarrow> bool" where
  "startsWith s t = prefix t s"

definition endsWith :: "string \<Rightarrow> string \<Rightarrow> bool" where
  "endsWith s t = suffix t s"

text \<open>\<^verbatim>\<open>s.toLowerCase()\<close>, on the ASCII letters.\<close>

definition lower_char :: "char \<Rightarrow> char" where
  "lower_char c =
     (if 65 \<le> (of_char c :: nat) \<and> (of_char c :: nat) \<le> 90
      then char_of ((of_char c :: nat) + 32) else c)"

definition toLowerCase :: "string \<Rightarrow> string" where
  "toLowerCase s = map lower_char s"

section \<open>\<^verbatim>\<open>Buffer.toString('base64')\<close>\<close>

definition base64_alphabet :: string where
  "base64_alphabet =
     ''ABCDEFGHIJKLMNOPQRSTUVWXYZabcdefghijklmnopqrstuvwxyz0123456789+/''"

definition base64_digit :: "byte \<Rightarrow> char" where
  "base64_digit b = base64_alphabet ! (unat b mod 64)"

fun toString_base64 :: "bytes \<Rightarrow> string" where
  "toString_base64 (a # b # c # rest) =
     [base64_digit (drop_bit 2 a),
      base64_digit (push_bit 4 (a AND 3) OR drop_bit 4 b),
      base64_digit (push_bit 2 (b AND 15) OR drop_bit 6 c),
      base64_digit (c AND 63)] @ toString_base64 rest"
| "toString_base64 [a, b] =
     [base64_digit (drop_bit 2 a),
      base64_digit (push_bit 4 (a AND 3) OR drop_bit 4 b),
      base64_digit (push_bit 2 (b AND 15)),
      CHR ''='']"
| "toString_base64 [a] =
     [base64_digit (drop_bit 2 a),
      base64_digit (push_bit 4 (a AND 3)),
      CHR ''='', CHR ''='']"
| "toString_base64 [] = []"

section \<open>Program state and environment\<close>

text \<open>A record of the nonce store (lib/nonce-store.js, \<^verbatim>\<open>store.set(nonce, {...})\<close>).\<close>

record nonce_data =
  uid :: int
  "file" :: string
  isPremium :: bool
  xorKey :: bytes
  createdAt :: int

text \<open>An entry of the single-page cache (lib/pdf-handler.js).\<close>

record cache_entry =
  buffer :: addr
  cachedAt :: int

text \<open>
  The module-level maps \<open>store\<close> and \<open>singlePageCache\<close>, and the heap of buffers.
  \<open>readCount\<close> and \<open>loadCount\<close> are instrumentation only: they count the calls of
  \<^verbatim>\<open>fs.promises.readFile\<close> and of \<^verbatim>\<open>PDFDocument.load\<close>.
\<close>

record state =
  store :: "string \<rightharpoonup> nonce_data"
  singlePageCache :: "string \<rightharpoonup> cache_entry"
  heap :: heap
  readCount :: nat
  loadCount :: nat

text \<open>
  An error thrown, with its message. The message of a TypeError of the \<^verbatim>\<open>path\<close>
  module is shortened (the library also names what it received); the handlers
  compare a message with \<^verbatim>\<open>'File not found'\<close> only.
\<close>

datatype error = Error string | TypeError string

fun message :: "error \<Rightarrow> string" where
  "message (Error m) = m"
| "message (TypeError m) = m"

datatype fs_entry = RegularFile bytes | Directory

text \<open>
  What the handlers read from outside: the configuration (\<^verbatim>\<open>nconf.get\<close>, where
  \<open>None\<close> is \<^verbatim>\<open>undefined\<close>), the working directory, the file system, and pdf-lib.
  \<open>pdf_first_page\<close> stands for \<^verbatim>\<open>PDFDocument.load\<close>, \<^verbatim>\<open>copyPages(srcDoc, [0])\<close>,
  \<^verbatim>\<open>addPage\<close> and \<^verbatim>\<open>save\<close>: from the bytes of a document, the bytes of the document
  with its first page only, or the error the library throws.
\<close>

record env =
  upload_path :: "string option"
  base_dir :: "string option"
  cwd :: string
  files :: "string \<rightharpoonup> fs_entry"
  pdf_first_page :: "bytes \<Rightarrow> error + bytes"

definition NONCE_TTL :: int where
  "NONCE_TTL = 30 * 1000"

definition CACHE_TTL :: int where
  "CACHE_TTL = 60 * 60 * 1000"

section \<open>Nonce store (lib/nonce-store.js)\<close>

record generated =
  g_nonce :: string
  g_xorKey :: string

text \<open>
  \<open>generate\<close>: the results of \<^verbatim>\<open>uuidv4()\<close>, \<^verbatim>\<open>crypto.randomBytes(8)\<close> and
  \<^verbatim>\<open>Date.now()\<close> are the parameters \<open>nonce\<close>, \<open>key\<close> and \<open>now\<close>.
\<close>

definition generate ::
  "state \<Rightarrow> string \<Rightarrow> bytes \<Rightarrow> int \<Rightarrow> int \<Rightarrow> string \<Rightarrow> bool \<Rightarrow> generated \<times> state" where
  "generate st nonce key now u f premium =
     (\<lparr>g_nonce = nonce, g_xorKey = toString_base64 key\<rparr>,
      st\<lparr>store := (store st)(nonce \<mapsto>
            \<lparr>uid = u, file = f, isPremium = premium, xorKey = key, createdAt = now\<rparr>)\<rparr>)"

definition getKey :: "state \<Rightarrow> string \<Rightarrow> string option \<times> state" where
  "getKey st nonce =
     (case store st nonce of
        None \<Rightarrow> (None, st)
      | Some d \<Rightarrow> (Some (toString_base64 (xorKey d)), st))"

text \<open>\<open>validate\<close>: \<open>now\<close> is what \<^verbatim>\<open>Date.now()\<close> returns in the TTL check.\<close>

definition validate :: "state \<Rightarrow> int \<Rightarrow> string \<Rightarrow> int \<Rightarrow> nonce_data option \<times> state" where
  "validate st now nonce u =
     (case store st nonce of
        None \<Rightarrow> (None, st)
      | Some d \<Rightarrow>
          (let st' = st\<lparr>store := (store st)(nonce := None)\<rparr>
           in if uid d \<noteq> u then (None, st')
              else if now - createdAt d > NONCE_TTL then (None, st')
              else (Some d, st')))"

section \<open>PDF handler (lib/pdf-handler.js)\<close>

text \<open>
  \<^verbatim>\<open>nconf.get('upload_path') || path.join(nconf.get('base_dir'), 'public', 'uploads')\<close>:
  an empty string is falsy; \<^verbatim>\<open>path.join\<close> throws a TypeError on \<^verbatim>\<open>undefined\<close>.
\<close>

definition uploadPath :: "env \<Rightarrow> error + string" where
  "uploadPath e =
     (case upload_path e of
        Some u \<Rightarrow> if u \<noteq> [] then Inr u
                  else (case base_dir e of
                          None \<Rightarrow> Inl (TypeError ''The path argument must be of type string'')
                        | Some b \<Rightarrow> Inr (path_join [b, ''public'', ''uploads'']))
      | None \<Rightarrow> (case base_dir e of
                   None \<Rightarrow> Inl (TypeError ''The path argument must be of type string'')
                 | Some b \<Rightarrow> Inr (path_join [b, ''public'', ''uploads''])))"

text \<open>\<open>resolveFilePath\<close>: \<open>Inr None\<close> is \<^verbatim>\<open>return null\<close>.\<close>

definition resolveFilePath :: "env \<Rightarrow> string \<Rightarrow> error + string option" where
  "resolveFilePath e filename =
     (let safeName = path_basename filename
      in if safeName = [] \<or> safeName \<noteq> filename \<or> str_includes safeName ''..''
         then Inr None
         else (case uploadPath e of
                 Inl err \<Rightarrow> Inl err
               | Inr up \<Rightarrow>
                   (let filePath = path_join [up, ''files'', safeName];
                        resolvedPath = path_resolve (cwd e) filePath;
                        resolvedUploadDir = path_resolve (cwd e) (path_join [up, ''files''])
                    in if \<not> startsWith resolvedPath resolvedUploadDir
                       then Inr None
                       else Inr (Some filePath))))"

text \<open>
  The common start of \<open>getFullPdf\<close> and \<open>getSinglePagePdf\<close>: resolve the name,
  \<^verbatim>\<open>fs.existsSync\<close>, \<^verbatim>\<open>fs.promises.readFile\<close>. The bytes read are a new buffer.
\<close>

definition readResolved :: "env \<Rightarrow> state \<Rightarrow> string \<Rightarrow> (error + addr) \<times> state" where
  "readResolved e st filename =
     (case resolveFilePath e filename of
        Inl err \<Rightarrow> (Inl err, st)
      | Inr None \<Rightarrow> (Inl (Error ''Invalid filename''), st)
      | Inr (Some filePath) \<Rightarrow>
          if filePath = [] then (Inl (Error ''Invalid filename''), st)
          else (case files e filePath of
                  None \<Rightarrow> (Inl (Error ''File not found''), st)
                | Some Directory \<Rightarrow>
                    (Inl (Error ''EISDIR: illegal operation on a directory, read''),
                     st\<lparr>readCount := readCount st + 1\<rparr>)
                | Some (RegularFile content) \<Rightarrow>
                    (let (a, h) = alloc (heap st) content
                     in (Inr a, st\<lparr>heap := h, readCount := readCount st + 1\<rparr>))))"

definition getFullPdf :: "env \<Rightarrow> state \<Rightarrow> string \<Rightarrow> (error + addr) \<times> state" where
  "getFullPdf e st filename = readResolved e st filename"

text \<open>
  \<open>getSinglePagePdf\<close>: \<open>t_check\<close> is \<^verbatim>\<open>Date.now()\<close> in the freshness test (evaluated
  only when an entry is cached), \<open>t_store\<close> is \<^verbatim>\<open>Date.now()\<close> when the entry is stored.
\<close>

definition getSinglePagePdf ::
  "env \<Rightarrow> state \<Rightarrow> string \<Rightarrow> int \<Rightarrow> int \<Rightarrow> (error + addr) \<times> state" where
  "getSinglePagePdf e st filename t_check t_store =
     (case (case singlePageCache st filename of
              None \<Rightarrow> None
            | Some cached \<Rightarrow> if t_check - cachedAt cached < CACHE_TTL then Some cached else None) of
        Some cached \<Rightarrow> (Inr (buffer cached), st)
      | None \<Rightarrow>
          (case readResolved e st filename of
             (Inl err, st1) \<Rightarrow> (Inl err, st1)
           | (Inr existingPdfBytes, st1) \<Rightarrow>
               (let st2 = st1\<lparr>loadCount := loadCount st1 + 1\<rparr>
                in case pdf_first_page e (buf (heap st2) existingPdfBytes) of
                     Inl err \<Rightarrow> (Inl err, st2)
                   | Inr pdfBytes \<Rightarrow>
                       (let (b, h) = alloc (heap st2) pdfBytes
                        in (Inr b,
                            st2\<lparr>heap := h,
                                singlePageCache := (singlePageCache st2)(filename \<mapsto>
                                  \<lparr>buffer = b, cachedAt = t_store\<rparr>)\<rparr>)))))"

section \<open>Requests and responses\<close>

text \<open>
  A query parameter as the framework parses it: absent, a string, or an array or
  object (\<^verbatim>\<open>?file[]=a\<close>).
\<close>

datatype query_value = Missing | Text string | Structured

record request =
  query_nonce :: query_value
  query_file :: query_value
  req_uid :: "int option"

text \<open>
  A response body: \<^verbatim>\<open>res.json({ error: m })\<close>, \<^verbatim>\<open>res.send(text)\<close>, \<^verbatim>\<open>res.send(buffer)\<close>,
  and the viewer page, of which the model keeps the values handed to the
  template for \<^verbatim>\<open>PDF_SECURE_CONFIG\<close>: filename, nonce and key (not the text of the
  page, see the viewer route).
\<close>

datatype body =
  JsonError string
| Plain string
| Binary addr
| ViewerPage string string string

record response =
  status :: nat
  headers :: "(string \<times> string) list"
  body :: body

definition json_error :: "nat \<Rightarrow> string \<Rightarrow> response" where
  "json_error code m = \<lparr>status = code, headers = [], body = JsonError m\<rparr>"

definition send_text :: "nat \<Rightarrow> string \<Rightarrow> response" where
  "send_text code m = \<lparr>status = code, headers = [], body = Plain m\<rparr>"

text \<open>\<^verbatim>\<open>req.uid || 0\<close>.\<close>

definition uid_or_guest :: "int option \<Rightarrow> int" where
  "uid_or_guest u = (case u of None \<Rightarrow> 0 | Some n \<Rightarrow> n)"

section \<open>Access gateway (lib/controllers.js)\<close>

text \<open>The choice of the variant by the record's flag, lines 49 to 53.\<close>

definition fetchPdf ::
  "env \<Rightarrow> state \<Rightarrow> nonce_data \<Rightarrow> int \<Rightarrow> int \<Rightarrow> (error + addr) \<times> state" where
  "fetchPdf e st d t_check t_store =
     (if isPremium d then getFullPdf e st (file d)
      else getSinglePagePdf e st (file d) t_check t_store)"

definition binary_headers :: "(string \<times> string) list" where
  "binary_headers =
     [(''Content-Type'', ''image/gif''),
      (''Cache-Control'', ''no-store, no-cache, must-revalidate, private''),
      (''X-Content-Type-Options'', ''nosniff''),
      (''Content-Disposition'', ''inline'')]"

text \<open>
  \<open>servePdfBinary\<close>: \<open>t_validate\<close>, \<open>t_check\<close> and \<open>t_store\<close> are the values of
  \<^verbatim>\<open>Date.now()\<close> in \<open>validate\<close> and in \<open>getSinglePagePdf\<close>. A nonce parameter that
  is not a string is truthy and is no key of the store, so \<open>validate\<close> returns
  \<^verbatim>\<open>null\<close> for it and leaves the store as it is.
\<close>

definition servePdfBinary ::
  "env \<Rightarrow> state \<Rightarrow> request \<Rightarrow> int \<Rightarrow> int \<Rightarrow> int \<Rightarrow> response \<times> state" where
  "servePdfBinary e st req t_validate t_check t_store =
     (case query_nonce req of
        Missing \<Rightarrow> (json_error 400 ''Missing nonce'', st)
      | Structured \<Rightarrow> (json_error 403 ''Invalid or expired nonce'', st)
      | Text nonce \<Rightarrow>
          if nonce = [] then (json_error 400 ''Missing nonce'', st)
          else
            (case validate st t_validate nonce (uid_or_guest (req_uid req)) of
               (None, st1) \<Rightarrow> (json_error 403 ''Invalid or expired nonce'', st1)
             | (Some d, st1) \<Rightarrow>
                 (case fetchPdf e st1 d t_check t_store of
                    (Inl err, st2) \<Rightarrow>
                      if message err = ''File not found''
                      then (json_error 404 ''PDF not found'', st2)
                      else (json_error 500 ''Internal error'', st2)
                  | (Inr pdfBuffer, st2) \<Rightarrow>
                      (let (encodedBuffer, h) = partialXorEncode (heap st2) pdfBuffer (xorKey d)
                       in (\<lparr>status = 200, headers = binary_headers,
                            body = Binary encodedBuffer\<rparr>,
                           st2\<lparr>heap := h\<rparr>)))))"

section \<open>Viewer route (plugin entry file, \<^verbatim>\<open>/plugins/pdf-secure/viewer\<close>)\<close>

text \<open>A word between apostrophes, as the content security policy writes \<^verbatim>\<open>'self'\<close>.\<close>

definition quoted :: "string \<Rightarrow> string" where
  "quoted s = CHR 0x27 # s @ [CHR 0x27]"

text \<open>The headers of the viewer page, all nine that \<^verbatim>\<open>res.set\<close> is given.\<close>

definition viewer_headers :: "(string \<times> string) list" where
  "viewer_headers =
     [(''X-Frame-Options'', ''SAMEORIGIN''),
      (''X-Content-Type-Options'', ''nosniff''),
      (''X-XSS-Protection'', ''1; mode=block''),
      (''Cache-Control'', ''no-store, no-cache, must-revalidate, private, max-age=0''),
      (''Pragma'', ''no-cache''),
      (''Expires'', ''0''),
      (''Referrer-Policy'', ''no-referrer''),
      (''Permissions-Policy'',
       ''accelerometer=(), camera=(), geolocation=(), gyroscope=(), magnetometer=(), microphone=(), payment=(), usb=()''),
      (''Content-Security-Policy'',
       ''default-src '' @ quoted ''self''
       @ ''; script-src '' @ quoted ''self'' @ '' '' @ quoted ''unsafe-inline''
       @ '' '' @ quoted ''unsafe-eval'' @ '' https://cdnjs.cloudflare.com''
       @ ''; style-src '' @ quoted ''self'' @ '' '' @ quoted ''unsafe-inline''
       @ '' https://cdnjs.cloudflare.com''
       @ ''; img-src '' @ quoted ''self'' @ '' data: blob:''
       @ ''; connect-src '' @ quoted ''self''
       @ ''; frame-ancestors '' @ quoted ''self'')]"

text \<open>
  The handler of the viewer route. \<open>viewerHtmlCache\<close> is the module variable of
  that name (\<open>None\<close> is \<^verbatim>\<open>null\<close>); \<open>rnd_nonce\<close>, \<open>rnd_key\<close> and \<open>now\<close> are what
  \<open>generate\<close> draws. \<^verbatim>\<open>path.basename\<close> throws a TypeError on a parameter that is
  not a string; the exception leaves the handler.

  The body of the page is not modelled as text. The source builds it with
  \<^verbatim>\<open>viewerHtmlCache.replace('</head>', ...)\<close>, where the replacement holds
  \<^verbatim>\<open>JSON.stringify\<close> of the filename, of the relative path, of the CSRF token, of the
  nonce and of the key; \<^verbatim>\<open>String.replace\<close> expands the patterns \<^verbatim>\<open>$&\<close>, \<^verbatim>\<open>$`\<close>, \<^verbatim>\<open>$'\<close>
  and \<^verbatim>\<open>$$\<close> of the replacement, so a filename such as \<^verbatim>\<open>$&.pdf\<close> is not written
  into the page as it is. \<open>ViewerPage f n k\<close> records only which filename, nonce
  and key were handed to the template. What the handler does to the state, the
  call of \<open>generate\<close>, does not depend on the text of the page.
\<close>

definition viewerRoute ::
  "string option \<Rightarrow> state \<Rightarrow> request \<Rightarrow> string \<Rightarrow> bytes \<Rightarrow> int \<Rightarrow> (error + response) \<times> state" where
  "viewerRoute viewerHtmlCache st req rnd_nonce rnd_key now =
     (case query_file req of
        Missing \<Rightarrow> (Inr (send_text 400 ''Missing file parameter''), st)
      | Structured \<Rightarrow> (Inl (TypeError ''The path argument must be of type string''), st)
      | Text f \<Rightarrow>
          if f = [] then (Inr (send_text 400 ''Missing file parameter''), st)
          else
            (let safeName = path_basename f
             in if safeName = [] \<or> \<not> endsWith (toLowerCase safeName) ''.pdf''
                then (Inr (send_text 400 ''Invalid file''), st)
                else if viewerHtmlCache = None \<or> viewerHtmlCache = Some []
                then (Inr (send_text 500 ''Viewer not available''), st)
                else
                  (let premium = True;
                       (nonceData, st') =
                          generate st rnd_nonce rnd_key now (uid_or_guest (req_uid req))
                            safeName premium
                   in (Inr \<lparr>status = 200, headers = viewer_headers,
                            body = ViewerPage safeName (g_nonce nonceData) (g_xorKey nonceData)\<rparr>,
                       st'))))"

section \<open>Invariants of the single-page cache\<close>

text \<open>Every cached name is one the path resolver accepts.\<close>

definition cache_names_ok :: "env \<Rightarrow> state \<Rightarrow> bool" where
  "cache_names_ok e st =
     (\<forall>f c. singlePageCache st f = Some c \<longrightarrow> (\<exists>p. resolveFilePath e f = Inr (Some p)))"

text \<open>Every cached reference is a buffer of the heap.\<close>

definition cache_refs_ok :: "state \<Rightarrow> bool" where
  "cache_refs_ok st =
     (\<forall>f c. singlePageCache st f = Some c \<longrightarrow> buffer c < length (heap st))"

section \<open>Initial state and example inputs\<close>

text \<open>The state when the modules are loaded: both maps are empty.\<close>

definition initial_state :: state where
  "initial_state =
     \<lparr>store = Map.empty, singlePageCache = Map.empty, heap = [],
      readCount = 0, loadCount = 0\<rparr>"

text \<open>A record as \<open>generate\<close> stores it, and a state that holds it under a nonce.\<close>

definition example_record :: nonce_data where
  "example_record =
     \<lparr>uid = 42, file = ''report.pdf'', isPremium = True,
      xorKey = [1, 2, 3, 4, 5, 6, 7, 8], createdAt = 1000\<rparr>"

definition example_state :: state where
  "example_state = initial_state\<lparr>store := [''T'' \<mapsto> example_record]\<rparr>"

text \<open>
  An environment with one uploaded file; its stand-in for pdf-lib keeps the first
  two bytes.
\<close>

definition example_env :: env where
  "example_env =
     \<lparr>upload_path = Some ''/srv/uploads'', base_dir = Some ''/srv'', cwd = ''/srv'',
      files = [''/srv/uploads/files/report.pdf'' \<mapsto> RegularFile [37, 80, 68, 70]],
      pdf_first_page = (\<lambda>bs. Inr (take 2 bs))\<rparr>"

text \<open>A request to the viewer route, by user 42.\<close>

definition example_request :: request where
  "example_request = \<lparr>query_nonce = Missing, query_file = Text ''/x/report.pdf'', req_uid = Some 42\<rparr>"

text \<open>
  The state after the first page of the example file has been cached, the state
  after it has been derived again from a stale entry, and an environment without
  any file, in which pdf-lib rejects every input.
\<close>

definition example_cached :: state where
  "example_cached =
     \<lparr>store = Map.empty,
      singlePageCache = [''report.pdf'' \<mapsto> \<lparr>buffer = 1, cachedAt = 5000\<rparr>],
      heap = [[37, 80, 68, 70], [37, 80]],
      readCount = 1, loadCount = 1\<rparr>"

definition example_recached :: state where
  "example_recached =
     \<lparr>store = Map.empty,
      singlePageCache = [''report.pdf'' \<mapsto> \<lparr>buffer = 3, cachedAt = 4000000\<rparr>],
      heap = [[37, 80, 68, 70], [37, 80], [37, 80, 68, 70], [37, 80]],
      readCount = 2, loadCount = 2\<rparr>"

definition empty_env :: env where
  "empty_env =
     \<lparr>upload_path = None, base_dir = None, cwd = ''/'',
      files = Map.empty, pdf_first_page = (\<lambda>bs. Inl (Error ''No PDF header found''))\<rparr>"

text \<open>
  A state with the first page cached and a record without the premium flag, and
  the request of a guest that presents its nonce.
\<close>

definition restricted_record :: nonce_data where
  "restricted_record =
     \<lparr>uid = 0, file = ''report.pdf'', isPremium = False,
      xorKey = [255, 1], createdAt = 6000\<rparr>"

definition restricted_state :: state where
  "restricted_state = example_cached\<lparr>store := [''R'' \<mapsto> restricted_record]\<rparr>"

definition restricted_request :: request where
  "restricted_request = \<lparr>query_nonce = Text ''R'', query_file = Missing, req_uid = None\<rparr>"

text \<open>
  A request to the viewer route for a name with two dots, the record the route
  stores for it, and the request that presents the nonce to the gateway.
\<close>

definition dotted_view_request :: request where
  "dotted_view_request = \<lparr>query_nonce = Missing, query_file = Text ''a..pdf'', req_uid = Some 42\<rparr>"

definition dotted_record :: nonce_data where
  "dotted_record =
     \<lparr>uid = 42, file = ''a..pdf'', isPremium = True,
      xorKey = [1, 2, 3, 4, 5, 6, 7, 8], createdAt = 1000\<rparr>"

definition dotted_state :: state where
  "dotted_state = initial_state\<lparr>store := [''B'' \<mapsto> dotted_record]\<rparr>"

definition dotted_request :: request where
  "dotted_request = \<lparr>query_nonce = Text ''B'', query_file = Missing, req_uid = Some 42\<rparr>"

section \<open>The codec: what the two loops compute\<close>

lemma length_xor_step: "length (xor_step h d k i) = length h"
  by (simp add: xor_step_def)

lemma buf_xor_step:
  "buf (xor_step h d k i) a =
     (if a = d then (buf h d)[i := byte_at (buf h d) i XOR key_at k i] else buf h a)"
  by (simp add: xor_step_def buf_def)

lemma length_xor_full: "length (xor_full h d k i n) = length h"
proof (induction h d k i n rule: xor_full.induct)
  case (1 h d k i n)
  then show ?case
    by (subst xor_full.simps) (simp add: length_xor_step)
qed

lemma buf_xor_full_other: "a \<noteq> d \<Longrightarrow> buf (xor_full h d k i n) a = buf h a"
proof (induction h d k i n rule: xor_full.induct)
  case (1 h d k i n)
  then show ?case
    by (subst xor_full.simps) (simp add: buf_xor_step)
qed

lemma length_buf_xor_full: "length (buf (xor_full h d k i n) a) = length (buf h a)"
proof (induction h d k i n rule: xor_full.induct)
  case (1 h d k i n)
  then show ?case
    by (subst xor_full.simps) (simp add: buf_xor_step)
qed

lemma nth_buf_xor_full:
  "j < length (buf h d) \<Longrightarrow>
   buf (xor_full h d k i n) d ! j =
     (if i \<le> j \<and> j < n then buf h d ! j XOR key_at k j else buf h d ! j)"
proof (induction h d k i n rule: xor_full.induct)
  case (1 h d k i n)
  show ?case
  proof (cases "i < n")
    case True
    have len: "j < length (buf (xor_step h d k i) d)"
      using "1.prems" by (simp add: buf_xor_step)
    have "buf (xor_full h d k i n) d ! j = buf (xor_full (xor_step h d k i) d k (i + 1) n) d ! j"
      using True by (subst xor_full.simps) simp
    also have "\<dots> = (if i + 1 \<le> j \<and> j < n then buf (xor_step h d k i) d ! j XOR key_at k j
                      else buf (xor_step h d k i) d ! j)"
      using "1.IH" [OF True len] .
    also have "\<dots> = (if i \<le> j \<and> j < n then buf h d ! j XOR key_at k j else buf h d ! j)"
    proof (cases "j = i")
      case True
      with \<open>i < n\<close> "1.prems" show ?thesis
        by (simp add: buf_xor_step byte_at_def)
    next
      case False
      with "1.prems" have "buf (xor_step h d k i) d ! j = buf h d ! j"
        by (simp add: buf_xor_step)
      moreover from False have "(i + 1 \<le> j) = (i \<le> j)" by arith
      ultimately show ?thesis by simp
    qed
    finally show ?thesis .
  next
    case False
    then show ?thesis by (subst xor_full.simps) auto
  qed
qed

lemma length_xor_stride: "length (xor_stride h d k i) = length h"
proof (induction h d k i rule: xor_stride.induct)
  case (1 h d k i)
  then show ?case
    by (subst xor_stride.simps) (simp add: length_xor_step)
qed

lemma buf_xor_stride_other: "a \<noteq> d \<Longrightarrow> buf (xor_stride h d k i) a = buf h a"
proof (induction h d k i rule: xor_stride.induct)
  case (1 h d k i)
  then show ?case
    by (subst xor_stride.simps) (simp add: buf_xor_step)
qed

lemma length_buf_xor_stride: "length (buf (xor_stride h d k i) a) = length (buf h a)"
proof (induction h d k i rule: xor_stride.induct)
  case (1 h d k i)
  then show ?case
    by (subst xor_stride.simps) (simp add: buf_xor_step)
qed

lemma stride_index:
  fixes i j :: nat
  assumes "j \<noteq> i"
  shows "(i + 50 \<le> j \<and> (j - (i + 50)) mod 50 = 0) \<longleftrightarrow> (i \<le> j \<and> (j - i) mod 50 = 0)"
proof (cases "i + 50 \<le> j")
  case True
  then obtain m where m: "j = i + 50 + m"
    using le_iff_add by blast
  have "(50 + m) mod 50 = m mod 50" by simp
  then show ?thesis by (simp add: m)
next
  case False
  show ?thesis
  proof (cases "i \<le> j")
    case True
    with False assms have "0 < j - i" "j - i < 50" by simp_all
    then have "(j - i) mod 50 \<noteq> 0" by simp
    with False show ?thesis by simp
  next
    case False
    then show ?thesis by simp
  qed
qed

lemma nth_buf_xor_stride:
  "j < length (buf h d) \<Longrightarrow>
   buf (xor_stride h d k i) d ! j =
     (if i \<le> j \<and> (j - i) mod 50 = 0 then buf h d ! j XOR key_at k j else buf h d ! j)"
proof (induction h d k i rule: xor_stride.induct)
  case (1 h d k i)
  show ?case
  proof (cases "i < length (buf h d)")
    case True
    have len: "j < length (buf (xor_step h d k i) d)"
      using "1.prems" by (simp add: buf_xor_step)
    have "buf (xor_stride h d k i) d ! j = buf (xor_stride (xor_step h d k i) d k (i + 50)) d ! j"
      using True by (subst xor_stride.simps) simp
    also have "\<dots> = (if i + 50 \<le> j \<and> (j - (i + 50)) mod 50 = 0
                      then buf (xor_step h d k i) d ! j XOR key_at k j
                      else buf (xor_step h d k i) d ! j)"
      using "1.IH" [OF True len] .
    also have "\<dots> = (if i \<le> j \<and> (j - i) mod 50 = 0
                      then buf h d ! j XOR key_at k j else buf h d ! j)"
    proof (cases "j = i")
      case True
      with "1.prems" show ?thesis
        by (simp add: buf_xor_step byte_at_def)
    next
      case False
      with "1.prems" have "buf (xor_step h d k i) d ! j = buf h d ! j"
        by (simp add: buf_xor_step)
      then show ?thesis by (simp only: stride_index [OF False])
    qed
    finally show ?thesis .
  next
    case False
    then show ?thesis using "1.prems" by (subst xor_stride.simps) simp
  qed
qed

lemma buf_append_new: "buf (h @ [x]) (length h) = x"
  by (simp add: buf_def)

lemma partialXorEncode_eq:
  "partialXorEncode h b k =
     (length h,
      xor_stride (xor_full (h @ [buf h b]) (length h) k 0 (min 10240 (length (buf h b))))
        (length h) k (min 10240 (length (buf h b))))"
  by (simp add: partialXorEncode_def Buffer_from_def Let_def buf_append_new)

lemma partialXorEncode_data:
  "partialXorEncode h b k = (d, h') \<Longrightarrow> d = length h \<and> length h' = Suc (length h)"
  unfolding partialXorEncode_eq by (auto simp: length_xor_full length_xor_stride)

lemma partialXorEncode_other:
  assumes "partialXorEncode h b k = (d, h')" and "a < length h"
  shows "buf h' a = buf h a"
proof -
  let ?h1 = "h @ [buf h b]"
  from assms(2) have ne: "a \<noteq> length h" by simp
  from assms(1) have "h' = xor_stride (xor_full ?h1 (length h) k 0
      (min 10240 (length (buf h b)))) (length h) k (min 10240 (length (buf h b)))"
    unfolding partialXorEncode_eq by auto
  then have "buf h' a = buf ?h1 a"
    using ne by (simp add: buf_xor_stride_other buf_xor_full_other)
  also have "\<dots> = buf h a"
    using assms(2) by (simp add: buf_def nth_append)
  finally show ?thesis .
qed

lemma partialXorEncode_length:
  assumes "partialXorEncode h b k = (d, h')"
  shows "length (buf h' d) = length (buf h b)"
proof -
  let ?h1 = "h @ [buf h b]"
  have copy: "buf ?h1 (length h) = buf h b" by (rule buf_append_new)
  from assms have "d = length h" and "h' = xor_stride (xor_full ?h1 (length h) k 0
      (min 10240 (length (buf h b)))) (length h) k (min 10240 (length (buf h b)))"
    unfolding partialXorEncode_eq by auto
  then show ?thesis
    by (simp only: length_buf_xor_stride length_buf_xor_full copy)
qed

lemma partialXorEncode_nth:
  assumes "partialXorEncode h b k = (d, h')" and "j < length (buf h b)"
  shows "buf h' d ! j =
           (if j < 10240 \<or> (10240 \<le> j \<and> (j - 10240) mod 50 = 0)
            then buf h b ! j XOR key_at k j else buf h b ! j)"
proof -
  define h1 where "h1 = h @ [buf h b]"
  define n where "n = min 10240 (length (buf h b))"
  define h2 where "h2 = xor_full h1 (length h) k 0 n"
  have copy: "buf h1 (length h) = buf h b"
    unfolding h1_def by (rule buf_append_new)
  from assms(1) have d: "d = length h" and h': "h' = xor_stride h2 (length h) k n"
    unfolding partialXorEncode_eq h2_def h1_def n_def by auto
  have j1: "j < length (buf h1 (length h))" using assms(2) copy by simp
  have j2: "j < length (buf h2 (length h))"
    unfolding h2_def using j1 by (simp only: length_buf_xor_full)
  have full: "buf h2 (length h) ! j = (if j < n then buf h b ! j XOR key_at k j else buf h b ! j)"
    unfolding h2_def using nth_buf_xor_full [OF j1, of k 0 n] by (simp only: copy le0 simp_thms)
  have stride: "buf h' d ! j = (if n \<le> j \<and> (j - n) mod 50 = 0
                  then buf h2 (length h) ! j XOR key_at k j else buf h2 (length h) ! j)"
    unfolding d h' using nth_buf_xor_stride [OF j2, of k n] .
  show ?thesis
  proof (cases "j < 10240")
    case True
    with assms(2) have lt: "j < n" by (simp add: n_def)
    then have "\<not> n \<le> j" by (simp only: not_le)
    with True lt stride full show ?thesis by simp
  next
    case False
    with assms(2) have n: "n = 10240" by (simp add: n_def)
    from False have ge: "10240 \<le> j" by simp
    from False n full have "buf h2 (length h) ! j = buf h b ! j" by simp
    with stride n False ge show ?thesis by simp
  qed
qed

lemma xor_twice: "(x XOR y) XOR y = x" for x y :: byte
  by (simp add: xor.assoc)

lemma partialXorEncode_twice:
  assumes 1: "partialXorEncode h b k = (d1, h1)"
    and 2: "partialXorEncode h1 d1 k = (d2, h2)"
  shows "buf h2 d2 = buf h b"
proof (rule nth_equalityI)
  show len: "length (buf h2 d2) = length (buf h b)"
    using partialXorEncode_length [OF 1] partialXorEncode_length [OF 2] by simp
  fix j assume "j < length (buf h2 d2)"
  then have j: "j < length (buf h b)" and j1: "j < length (buf h1 d1)"
    using len partialXorEncode_length [OF 1] by simp_all
  show "buf h2 d2 ! j = buf h b ! j"
    unfolding partialXorEncode_nth [OF 2 j1] partialXorEncode_nth [OF 1 j]
    by (auto simp: xor_twice)
qed

section \<open>Properties of the codec\<close>

text \<open>
  C1: applying the transform twice with the same non-empty key gives back a
  buffer with exactly the bytes of the original input.
\<close>

theorem partialXorEncode_twice_restores:
  assumes "k \<noteq> []"
    and "partialXorEncode h b k = (d1, h1)"
    and "partialXorEncode h1 d1 k = (d2, h2)"
  shows "buf h2 d2 = buf h b"
  using assms(2,3) by (rule partialXorEncode_twice)

theorem partialXorEncode_twice_restores_witness:
  "[7, 9] \<noteq> ([] :: bytes)
   \<and> partialXorEncode [[1, 2, 3]] 0 [7, 9] = (1, [[1, 2, 3], [6, 11, 4]])
   \<and> partialXorEncode [[1, 2, 3], [6, 11, 4]] 1 [7, 9] = (2, [[1, 2, 3], [6, 11, 4], [1, 2, 3]])
   \<and> buf [[1, 2, 3], [6, 11, 4], [1, 2, 3]] 2 = buf [[1, 2, 3]] 0"
proof -
  have k: "[7, 9] \<noteq> ([] :: bytes)" by simp
  have e1: "partialXorEncode [[1, 2, 3]] 0 [7, 9] = (1, [[1, 2, 3], [6, 11, 4]])"
    by code_simp
  have e2: "partialXorEncode [[1, 2, 3], [6, 11, 4]] 1 [7, 9]
              = (2, [[1, 2, 3], [6, 11, 4], [1, 2, 3]])"
    by code_simp
  from partialXorEncode_twice_restores [OF k e1 e2] k e1 e2 show ?thesis by simp
qed

text \<open>
  C6: with a non-empty key, every byte below min(10240, length) is XORed with
  key[i mod len(key)]; from offset 10240 on, the bytes at offsets 10240, 10290,
  10340, ... are XORed with the key byte of their absolute offset, and every
  other byte is the input byte. The length is unchanged.
\<close>

theorem partialXorEncode_bytes:
  assumes "k \<noteq> []" and "partialXorEncode h b k = (d, h')"
  shows "length (buf h' d) = length (buf h b)
       \<and> (\<forall>i < min 10240 (length (buf h b)).
             buf h' d ! i = buf h b ! i XOR k ! (i mod length k))
       \<and> (\<forall>i. 10240 \<le> i \<and> i < length (buf h b) \<and> (i - 10240) mod 50 = 0 \<longrightarrow>
             buf h' d ! i = buf h b ! i XOR k ! (i mod length k))
       \<and> (\<forall>i. 10240 \<le> i \<and> i < length (buf h b) \<and> (i - 10240) mod 50 \<noteq> 0 \<longrightarrow>
             buf h' d ! i = buf h b ! i)"
proof -
  have key: "key_at k i = k ! (i mod length k)" for i
    using assms(1) by (simp add: key_at_def)
  show ?thesis
    using partialXorEncode_length [OF assms(2)]
    by (auto simp: partialXorEncode_nth [OF assms(2)] key)
qed

theorem partialXorEncode_bytes_witness:
  "buf (snd (partialXorEncode [replicate 10300 0] 0 [7, 9]))
       (fst (partialXorEncode [replicate 10300 0] 0 [7, 9])) ! 5 = 9
   \<and> buf (snd (partialXorEncode [replicate 10300 0] 0 [7, 9]))
       (fst (partialXorEncode [replicate 10300 0] 0 [7, 9])) ! 10290 = 7
   \<and> buf (snd (partialXorEncode [replicate 10300 0] 0 [7, 9]))
       (fst (partialXorEncode [replicate 10300 0] 0 [7, 9])) ! 10291 = 0"
proof -
  define r where "r = partialXorEncode [replicate 10300 0] 0 [7, 9]"
  have k: "[7, 9] \<noteq> ([] :: bytes)" by simp
  have r: "partialXorEncode [replicate 10300 0] 0 [7, 9] = (fst r, snd r)"
    by (simp add: r_def)
  have len: "length (buf [replicate 10300 0] 0) = 10300" and
       nth: "\<And>i. i < 10300 \<Longrightarrow> buf [replicate 10300 (0::byte)] 0 ! i = 0"
    by (simp_all add: buf_def)
  note t = partialXorEncode_bytes [OF k r, unfolded len]
  from t have "buf (snd r) (fst r) ! 5 = buf [replicate 10300 0] 0 ! 5 XOR [7, 9] ! (5 mod length [7, 9 :: byte])"
    by simp
  moreover from t have "buf (snd r) (fst r) ! 10290
        = buf [replicate 10300 0] 0 ! 10290 XOR [7, 9] ! (10290 mod length [7, 9 :: byte])"
    by simp
  moreover from t have "buf (snd r) (fst r) ! 10291 = buf [replicate 10300 0] 0 ! 10291"
    by simp
  moreover have "5 mod Suc (Suc 0) = Suc 0" and "10290 mod Suc (Suc 0) = 0"
    by presburger+
  ultimately show ?thesis
    unfolding r_def [symmetric] by (simp add: nth)
qed

section \<open>Properties of the nonce store\<close>

text \<open>
  C2: \<open>validate\<close> returns null exactly when the nonce is unknown, the uid differs
  from the one of the record, or more than the TTL has passed since the record
  was created; otherwise it returns the record. After the call the nonce is not
  in the store, and a second call for the same nonce returns null for every uid
  and at every time.
\<close>

theorem validate_single_use:
  "(fst (validate st now nonce u) = None \<longleftrightarrow>
      (store st nonce = None
       \<or> (\<exists>d. store st nonce = Some d \<and> (uid d \<noteq> u \<or> now - createdAt d > NONCE_TTL))))
   \<and> (\<forall>d. fst (validate st now nonce u) = Some d \<longrightarrow> store st nonce = Some d)
   \<and> store (snd (validate st now nonce u)) nonce = None
   \<and> fst (validate (snd (validate st now nonce u)) now' nonce u') = None"
  by (auto simp: validate_def Let_def split: option.splits)

theorem validate_single_use_witness:
  "fst (validate example_state 2000 ''T'' 42) = Some example_record
   \<and> store (snd (validate example_state 2000 ''T'' 42)) ''T'' = None
   \<and> fst (validate (snd (validate example_state 2000 ''T'' 42)) 2000 ''T'' 42) = None
   \<and> fst (validate example_state 2000 ''T'' 7) = None
   \<and> fst (validate example_state 31001 ''T'' 42) = None
   \<and> fst (validate example_state 2000 ''U'' 42) = None"
  using validate_single_use [of example_state 2000 "''T''" 42 2000 42]
    validate_single_use [of example_state 2000 "''T''" 7]
    validate_single_use [of example_state 31001 "''T''" 42]
    validate_single_use [of example_state 2000 "''U''" 42]
  by (simp add: example_state_def example_record_def initial_state_def NONCE_TTL_def
      validate_def)

text \<open>
  C7: \<open>getKey\<close> leaves the state as it is. For a nonce in the store it returns
  the key of the record, in base64; for an unknown nonce it returns null. A
  \<open>validate\<close> after it behaves as without it.
\<close>

theorem getKey_peek:
  "snd (getKey st nonce) = st
   \<and> (\<forall>d. store st nonce = Some d \<longrightarrow>
         fst (getKey st nonce) = Some (toString_base64 (xorKey d)))
   \<and> (store st nonce = None \<longrightarrow> fst (getKey st nonce) = None)
   \<and> validate (snd (getKey st nonce)) now nonce u = validate st now nonce u"
  by (simp add: getKey_def split: option.splits)

theorem getKey_peek_witness:
  "snd (getKey example_state ''T'') = example_state
   \<and> fst (getKey example_state ''T'') = Some ''AQIDBAUGBwg=''
   \<and> fst (getKey example_state ''U'') = None
   \<and> fst (validate (snd (getKey example_state ''T'')) 2000 ''T'' 42) = Some example_record"
proof -
  have b: "toString_base64 [1, 2, 3, 4, 5, 6, 7, 8] = ''AQIDBAUGBwg=''"
    by code_simp
  have v: "fst (validate example_state 2000 ''T'' 42) = Some example_record"
    by (simp add: example_state_def example_record_def initial_state_def NONCE_TTL_def
        validate_def)
  have s: "store example_state ''T'' = Some example_record" "store example_state ''U'' = None"
    by (simp_all add: example_state_def initial_state_def)
  from getKey_peek [of example_state "''T''" 2000 42] getKey_peek [of example_state "''U''"]
  show ?thesis
    by (simp add: s v b example_record_def del: toString_base64.simps)
qed

lemma getKey_after_generate:
  "fst (getKey (snd (generate st n k now u f p)) n) = Some (g_xorKey (fst (generate st n k now u f p)))"
  by (simp add: getKey_def generate_def)

section \<open>Properties of the path resolver\<close>

lemma slash_notin_basename: "CHR ''/'' \<notin> set (path_basename p)"
proof -
  have "\<forall>c \<in> set (takeWhile (\<lambda>c. c \<noteq> CHR ''/'') xs). c \<noteq> CHR ''/''" for xs :: string
    by (auto dest: set_takeWhileD)
  then show ?thesis by (auto simp: path_basename_def)
qed

lemma basename_fixed_no_slash: "path_basename p = p \<Longrightarrow> CHR ''/'' \<notin> set p"
  using slash_notin_basename [of p] by simp

lemma resolveFilePath_rejects_slash:
  "CHR ''/'' \<in> set filename \<Longrightarrow> resolveFilePath e filename = Inr None"
  using basename_fixed_no_slash [of filename]
  by (auto simp: resolveFilePath_def Let_def)

lemma resolveFilePath_rejects_dotdot:
  "str_includes filename ''..'' \<Longrightarrow> resolveFilePath e filename = Inr None"
  by (auto simp: resolveFilePath_def Let_def)

text \<open>
  C4: a filename that contains a slash, or that contains \<^verbatim>\<open>..\<close>, or whose basename
  is not the filename itself, is rejected: \<open>resolveFilePath\<close> returns null.
\<close>

theorem resolveFilePath_rejects_traversal:
  assumes "CHR ''/'' \<in> set filename \<or> str_includes filename ''..''
           \<or> path_basename filename \<noteq> filename"
  shows "resolveFilePath e filename = Inr None"
  using assms resolveFilePath_rejects_slash [of filename e]
    resolveFilePath_rejects_dotdot [of filename e]
  by (auto simp: resolveFilePath_def Let_def)

theorem resolveFilePath_rejects_traversal_witness:
  "CHR ''/'' \<in> set ''../etc/passwd''
   \<and> resolveFilePath example_env ''../etc/passwd'' = Inr None
   \<and> str_includes ''a..pdf'' ''..''
   \<and> resolveFilePath example_env ''a..pdf'' = Inr None"
proof -
  have 1: "CHR ''/'' \<in> set ''../etc/passwd''" by simp
  have 2: "str_includes ''a..pdf'' ''..''" by code_simp
  from resolveFilePath_rejects_traversal [of "''../etc/passwd''" example_env]
    resolveFilePath_rejects_traversal [of "''a..pdf''" example_env] 1 2
  show ?thesis by simp
qed

section \<open>Paths below a directory\<close>

lemma split_slash_nonempty: "split_slash p \<noteq> []"
  by (induction p) (auto split: list.splits)

lemma split_slash_plain: "CHR ''/'' \<notin> set s \<Longrightarrow> split_slash s = [s]"
  by (induction s) auto

lemma split_slash_append:
  "split_slash (a @ CHR ''/'' # b) = split_slash a @ split_slash b"
proof (induction a)
  case Nil
  then show ?case by simp
next
  case (Cons c a)
  then show ?case
    using split_slash_nonempty [of a] by (cases "split_slash a") auto
qed

lemma join_slash_snoc:
  "join_slash (ss @ [s]) = (if ss = [] then s else join_slash ss @ CHR ''/'' # s)"
  by (induction ss rule: join_slash.induct) auto

lemma normalize_segments_append:
  "normalize_segments a res (xs @ ys)
     = normalize_segments a (rev (normalize_segments a res xs)) ys"
  by (induction a res xs rule: normalize_segments.induct) (auto split: list.splits)

lemma normalize_segments_snoc:
  assumes "s \<noteq> []" "s \<noteq> ''.''" "s \<noteq> ''..''"
  shows "normalize_segments a res (xs @ [s]) = normalize_segments a res xs @ [s]"
  unfolding normalize_segments_append [of a res xs "[s]"] using assms by simp

lemma normalize_segments_skip:
  "normalize_segments a res (xs @ [[]]) = normalize_segments a res xs"
  unfolding normalize_segments_append [of a res xs "[[]]"] by simp

lemma join_slash_split_slash: "join_slash (split_slash p) = p"
proof (induction p)
  case Nil
  then show ?case by simp
next
  case (Cons c p)
  show ?case
  proof (cases "c = CHR ''/''")
    case True
    with Cons show ?thesis
      using split_slash_nonempty [of p] by (cases "split_slash p") auto
  next
    case False
    with Cons show ?thesis
      using split_slash_nonempty [of p]
      by (cases "split_slash p"; cases "tl (split_slash p)") auto
  qed
qed


lemma path_normalize_nonempty: "path_normalize p \<noteq> []"
  by (simp add: path_normalize_def Let_def)

lemma path_join_nonempty: "path_join args \<noteq> []"
  by (simp add: path_join_def path_normalize_nonempty split: list.splits)

lemma uploadPath_nonempty: "uploadPath e = Inr up \<Longrightarrow> up \<noteq> []"
  by (auto simp: uploadPath_def path_join_nonempty split: option.splits if_splits)

text \<open>The normalized segments of \<^verbatim>\<open>up/files\<close> end with \<^verbatim>\<open>files\<close>.\<close>

lemma files_segments:
  "normalize_segments a [] (split_slash (up @ ''/files''))
     = normalize_segments a [] (split_slash up) @ [''files'']"
proof -
  have "split_slash (up @ ''/files'') = split_slash up @ [''files'']"
    using split_slash_append [of up "''files''"] by (simp add: split_slash_plain)
  then show ?thesis by (simp add: normalize_segments_snoc)
qed

lemma path_normalize_segments:
  assumes "p \<noteq> []" and "last p \<noteq> CHR ''/''"
    and "normalize_segments (hd p \<noteq> CHR ''/'') [] (split_slash p) = N"
    and "join_slash N \<noteq> []"
  shows "path_normalize p = (if hd p = CHR ''/'' then ''/'' else []) @ join_slash N"
  using assms by (simp add: path_normalize_def normalizeString_def Let_def)

lemma join_slash_snoc_nonempty: "join_slash (ss @ [s]) \<noteq> []" if "s \<noteq> []"
  using that by (simp add: join_slash_snoc)

lemma path_join_files:
  assumes "up \<noteq> []"
  shows "path_join [up, ''files'']
           = (if hd up = CHR ''/'' then ''/'' else [])
             @ join_slash (normalize_segments (hd up \<noteq> CHR ''/'') [] (split_slash up) @ [''files''])"
proof -
  define N where "N = normalize_segments (hd up \<noteq> CHR ''/'') [] (split_slash up) @ [''files'']"
  have j: "path_join [up, ''files''] = path_normalize (up @ ''/files'')"
    using assms by (simp add: path_join_def)
  have h: "hd (up @ ''/files'') = hd up" using assms by simp
  have n: "normalize_segments (hd (up @ ''/files'') \<noteq> CHR ''/'') [] (split_slash (up @ ''/files'')) = N"
    unfolding h N_def by (rule files_segments)
  have q: "join_slash N \<noteq> []"
    unfolding N_def by (rule join_slash_snoc_nonempty) simp
  have "path_normalize (up @ ''/files'')
          = (if hd (up @ ''/files'') = CHR ''/'' then ''/'' else []) @ join_slash N"
    by (rule path_normalize_segments [OF _ _ n q]) simp_all
  then show ?thesis unfolding j h N_def .
qed

lemma path_join_files_child:
  assumes "up \<noteq> []" and "name \<noteq> []" and "CHR ''/'' \<notin> set name"
    and "name \<noteq> ''.''" and "name \<noteq> ''..''"
  shows "path_join [up, ''files'', name] = path_join [up, ''files''] @ CHR ''/'' # name"
proof -
  define N where "N = normalize_segments (hd up \<noteq> CHR ''/'') [] (split_slash up) @ [''files'']"
  define p where "p = (up @ ''/files'') @ CHR ''/'' # name"
  have j: "path_join [up, ''files'', name] = path_normalize p"
    using assms(1,2) by (simp add: path_join_def p_def)
  have sp: "split_slash p = split_slash (up @ ''/files'') @ [name]"
    unfolding p_def split_slash_append using assms(3) by (simp add: split_slash_plain)
  have h: "hd p = hd up" using assms(1) by (simp add: p_def)
  have seg: "normalize_segments (hd p \<noteq> CHR ''/'') [] (split_slash p) = N @ [name]"
    unfolding sp h N_def normalize_segments_snoc [OF assms(2,4,5)] files_segments ..
  have "last name \<in> set name" using assms(2) by (rule last_in_set)
  with assms(3) have "last name \<noteq> CHR ''/''" by metis
  then have l: "last p \<noteq> CHR ''/''" using assms(2) by (simp add: p_def)
  have ne: "p \<noteq> []" by (simp add: p_def)
  have N: "N \<noteq> []" by (simp add: N_def)
  have q: "join_slash (N @ [name]) = join_slash N @ CHR ''/'' # name"
    using N by (simp add: join_slash_snoc)
  then have q': "join_slash (N @ [name]) \<noteq> []" by simp
  have "path_normalize p = (if hd p = CHR ''/'' then ''/'' else []) @ join_slash (N @ [name])"
    by (rule path_normalize_segments [OF ne l seg q'])
  also have "\<dots> = ((if hd up = CHR ''/'' then ''/'' else []) @ join_slash N) @ CHR ''/'' # name"
    unfolding q h by simp
  also have "(if hd up = CHR ''/'' then ''/'' else []) @ join_slash N = path_join [up, ''files'']"
    unfolding N_def by (rule path_join_files [OF assms(1), symmetric])
  finally show ?thesis unfolding j .
qed

lemma path_join_files_dot:
  assumes "up \<noteq> []"
  shows "path_join [up, ''files'', ''.''] = path_join [up, ''files'']"
proof -
  define N where "N = normalize_segments (hd up \<noteq> CHR ''/'') [] (split_slash up) @ [''files'']"
  define p where "p = (up @ ''/files'') @ ''/.''"
  have j: "path_join [up, ''files'', ''.''] = path_normalize p"
    using assms by (simp add: path_join_def p_def)
  have sp: "split_slash p = split_slash (up @ ''/files'') @ [''.'']"
    unfolding p_def using split_slash_append [of "up @ ''/files''" "''.''"] by simp
  have h: "hd p = hd up" using assms by (simp add: p_def)
  have "normalize_segments (hd up \<noteq> CHR ''/'') [] (split_slash (up @ ''/files'') @ [''.''])
          = normalize_segments (hd up \<noteq> CHR ''/'') (rev N) [''.'']"
    unfolding normalize_segments_append [of _ "[]" "split_slash (up @ ''/files'')" "[''.'']"]
      files_segments N_def ..
  also have "\<dots> = N" by simp
  finally have seg: "normalize_segments (hd p \<noteq> CHR ''/'') [] (split_slash p) = N"
    unfolding sp h .
  have q: "join_slash N \<noteq> []"
    unfolding N_def by (rule join_slash_snoc_nonempty) simp
  have "path_normalize p = (if hd p = CHR ''/'' then ''/'' else []) @ join_slash N"
    by (rule path_normalize_segments [OF _ _ seg q]) (simp_all add: p_def)
  then show ?thesis
    unfolding j h path_join_files [OF assms] N_def .
qed


text \<open>
  What \<^verbatim>\<open>path.resolve\<close> normalizes: the path, after the working directory if the
  path is relative, and whether the whole is absolute.
\<close>

lemma path_resolve_normalized:
  assumes "p \<noteq> []"
    and "X = (if hd p = CHR ''/'' \<or> wd = [] then [] else wd @ ''/'')"
    and "abs2 = (if hd p = CHR ''/'' \<or> wd = [] then hd p = CHR ''/'' else hd wd = CHR ''/'')"
    and "normalizeString (X @ p @ ''/'') (\<not> abs2) = q" and "q \<noteq> []"
  shows "path_resolve wd p = (if abs2 then ''/'' @ q else q)"
proof (cases "hd p = CHR ''/'' \<or> wd = []")
  case True
  with assms show ?thesis
    by (cases "hd p = CHR ''/''") (simp_all add: path_resolve_def Let_def)
next
  case False
  with assms show ?thesis
    by (cases "hd wd = CHR ''/''") (simp_all add: path_resolve_def Let_def)
qed

lemma files_root_shape:
  assumes "up \<noteq> []"
  shows "path_join [up, ''files''] = ''files'' \<or> (\<exists>Z. path_join [up, ''files''] = Z @ ''/files'')"
proof -
  define N0 where "N0 = normalize_segments (hd up \<noteq> CHR ''/'') [] (split_slash up)"
  define pre where "pre = (if hd up = CHR ''/'' then ''/'' else [])"
  have R: "path_join [up, ''files''] = pre @ join_slash (N0 @ [''files''])"
    unfolding pre_def N0_def by (rule path_join_files [OF assms])
  show ?thesis
  proof (cases "N0 = []")
    case True
    then have j: "path_join [up, ''files''] = pre @ ''files''" by (simp add: R)
    show ?thesis
    proof (cases "hd up = CHR ''/''")
      case True
      then have "path_join [up, ''files''] = [] @ ''/files''" by (simp add: j pre_def)
      then show ?thesis by (intro disjI2 exI)
    next
      case False
      then have "path_join [up, ''files''] = ''files''" by (simp add: j pre_def)
      then show ?thesis by (rule disjI1)
    qed
  next
    case False
    then have "path_join [up, ''files''] = (pre @ join_slash N0) @ ''/files''"
      by (simp add: R join_slash_snoc)
    then show ?thesis by (intro disjI2 exI)
  qed
qed

lemma split_slash_files_last:
  assumes "R = ''files'' \<or> (\<exists>Z. R = Z @ ''/files'')"
    and "X = [] \<or> (\<exists>Y. X = Y @ ''/'')"
  shows "\<exists>T. split_slash (X @ R) = T @ [''files'']"
proof -
  have f: "split_slash ''files'' = [''files'']" by (rule split_slash_plain) simp
  have after: "split_slash (A @ ''/files'') = split_slash A @ [''files'']" for A
  proof -
    have "A @ ''/files'' = A @ CHR ''/'' # ''files''" by simp
    then show ?thesis by (simp only: split_slash_append f)
  qed
  have last_files: "\<exists>T. split_slash p = T @ [''files'']"
    if "split_slash p = T0 @ [''files'']" for p T0
    unfolding that by (rule exI [where x = T0]) (rule refl)
  from assms(1) show ?thesis
  proof
    assume R: "R = ''files''"
    from assms(2) show ?thesis
    proof
      assume "X = []"
      then have "split_slash (X @ R) = [] @ [''files'']" by (simp only: R f append_Nil)
      then show ?thesis by (rule last_files)
    next
      assume "\<exists>Y. X = Y @ ''/''"
      then obtain Y where "X = Y @ ''/''" ..
      then have "X @ R = Y @ ''/files''" by (simp add: R)
      then have "split_slash (X @ R) = split_slash Y @ [''files'']" by (simp only: after)
      then show ?thesis by (rule last_files)
    qed
  next
    assume "\<exists>Z. R = Z @ ''/files''"
    then obtain Z where "R = Z @ ''/files''" ..
    then have "X @ R = (X @ Z) @ ''/files''" by simp
    then have "split_slash (X @ R) = split_slash (X @ Z) @ [''files'']" by (simp only: after)
    then show ?thesis by (rule last_files)
  qed
qed

lemma path_resolve_child:
  assumes shape: "R = ''files'' \<or> (\<exists>Z. R = Z @ ''/files'')"
    and "name \<noteq> []" and "CHR ''/'' \<notin> set name" and "name \<noteq> ''.''" and "name \<noteq> ''..''"
  shows "path_resolve wd (R @ CHR ''/'' # name) = path_resolve wd R @ CHR ''/'' # name"
proof -
  from shape have Rne: "R \<noteq> []" by auto
  define X where "X = (if hd R = CHR ''/'' \<or> wd = [] then [] else wd @ ''/'')"
  define abs2 where
    "abs2 = (if hd R = CHR ''/'' \<or> wd = [] then hd R = CHR ''/'' else hd wd = CHR ''/'')"
  have Xs: "X = [] \<or> (\<exists>Y. X = Y @ ''/'')" by (auto simp: X_def)
  from split_slash_files_last [OF shape Xs] obtain T where
    T: "split_slash (X @ R) = T @ [''files'']" ..
  define M where "M = normalize_segments (\<not> abs2) [] T @ [''files'']"
  have M: "normalize_segments (\<not> abs2) [] (split_slash (X @ R)) = M"
    unfolding T M_def by (simp add: normalize_segments_snoc)
  have s1: "split_slash (X @ R @ ''/'') = split_slash (X @ R) @ [[]]"
    using split_slash_append [of "X @ R" "[]"] by simp
  have q1: "normalizeString (X @ R @ ''/'') (\<not> abs2) = join_slash M"
    unfolding normalizeString_def s1 normalize_segments_skip M ..
  have "split_slash (name @ ''/'') = [name, []]"
    using split_slash_append [of name "[]"] assms(3) by (simp add: split_slash_plain)
  then have s2: "split_slash (X @ (R @ CHR ''/'' # name) @ ''/'')
                   = (split_slash (X @ R) @ [name]) @ [[]]"
    using split_slash_append [of "X @ R" "name @ ''/''"] by simp
  have q2: "normalizeString (X @ (R @ CHR ''/'' # name) @ ''/'') (\<not> abs2) = join_slash (M @ [name])"
    unfolding normalizeString_def s2 normalize_segments_skip
      normalize_segments_snoc [OF assms(2,4,5)] M ..
  have Mne: "M \<noteq> []" by (simp add: M_def)
  have j: "join_slash (M @ [name]) = join_slash M @ CHR ''/'' # name"
    using Mne by (simp add: join_slash_snoc)
  have jne: "join_slash M \<noteq> []"
    unfolding M_def by (rule join_slash_snoc_nonempty) simp
  have hdC: "hd (R @ CHR ''/'' # name) = hd R" using Rne by simp
  have r: "path_resolve wd R = (if abs2 then ''/'' @ join_slash M else join_slash M)"
    by (rule path_resolve_normalized [OF Rne X_def abs2_def q1 jne])
  have Cne: "R @ CHR ''/'' # name \<noteq> []" by simp
  have jne2: "join_slash (M @ [name]) \<noteq> []" unfolding j by simp
  have c: "path_resolve wd (R @ CHR ''/'' # name)
             = (if abs2 then ''/'' @ join_slash (M @ [name]) else join_slash (M @ [name]))"
    by (rule path_resolve_normalized [OF Cne _ _ q2 jne2]) (simp_all only: hdC X_def abs2_def)
  show ?thesis unfolding c r j by simp
qed


text \<open>
  A name that passes the first test of \<open>resolveFilePath\<close> is accepted, and the
  path returned resolves to the directory \<^verbatim>\<open>files\<close> itself (for the name \<^verbatim>\<open>.\<close>) or
  to the entry of that name in it.
\<close>

lemma resolveFilePath_accepted:
  assumes "filename \<noteq> []" and "path_basename filename = filename"
    and "\<not> str_includes filename ''..''" and up: "uploadPath e = Inr up"
  shows "resolveFilePath e filename = Inr (Some (path_join [up, ''files'', filename]))
       \<and> path_resolve (cwd e) (path_join [up, ''files'', filename])
           = (if filename = ''.'' then path_resolve (cwd e) (path_join [up, ''files''])
              else path_resolve (cwd e) (path_join [up, ''files'']) @ CHR ''/'' # filename)"
proof -
  from up have upne: "up \<noteq> []" by (rule uploadPath_nonempty)
  from assms(2) have ns: "CHR ''/'' \<notin> set filename" by (rule basename_fixed_no_slash)
  have "str_includes ''..'' ''..''" by (simp add: str_includes_def)
  with assms(3) have ndd: "filename \<noteq> ''..''" by auto
  have res: "path_resolve (cwd e) (path_join [up, ''files'', filename])
           = (if filename = ''.'' then path_resolve (cwd e) (path_join [up, ''files''])
              else path_resolve (cwd e) (path_join [up, ''files'']) @ CHR ''/'' # filename)"
  proof (cases "filename = ''.''")
    case True
    then show ?thesis by (simp add: path_join_files_dot [OF upne])
  next
    case False
    from path_join_files_child [OF upne assms(1) ns False ndd]
      path_resolve_child [OF files_root_shape [OF upne] assms(1) ns False ndd, of "cwd e"]
    show ?thesis using False by simp
  qed
  then have "startsWith (path_resolve (cwd e) (path_join [up, ''files'', filename]))
               (path_resolve (cwd e) (path_join [up, ''files'']))"
    by (simp add: startsWith_def)
  then have "resolveFilePath e filename = Inr (Some (path_join [up, ''files'', filename]))"
    using assms(1,2,3) up by (simp add: resolveFilePath_def Let_def)
  with res show ?thesis by simp
qed

text \<open>
  C5: when \<open>resolveFilePath\<close> returns a path, the resolved form of that path
  starts with the resolved form of the directory \<^verbatim>\<open>files\<close> under the upload path;
  it is that directory followed by a slash and the filename (or the directory
  itself, for the filename \<^verbatim>\<open>.\<close>).
\<close>

theorem resolveFilePath_within_root:
  assumes "resolveFilePath e filename = Inr (Some p)"
  shows "\<exists>up. uploadPath e = Inr up
            \<and> p = path_join [up, ''files'', filename]
            \<and> prefix (path_resolve (cwd e) (path_join [up, ''files'']))
                      (path_resolve (cwd e) p)
            \<and> path_resolve (cwd e) p
                = (if filename = ''.'' then path_resolve (cwd e) (path_join [up, ''files''])
                   else path_resolve (cwd e) (path_join [up, ''files'']) @ CHR ''/'' # filename)"
proof -
  from assms have ok: "filename \<noteq> []" "path_basename filename = filename"
    "\<not> str_includes filename ''..''"
    by (auto simp: resolveFilePath_def Let_def split: if_splits)
  from assms ok obtain up where up: "uploadPath e = Inr up"
    by (cases "uploadPath e") (auto simp: resolveFilePath_def Let_def)
  note acc = resolveFilePath_accepted [OF ok up]
  from acc assms have p: "p = path_join [up, ''files'', filename]" by simp
  from acc have r: "path_resolve (cwd e) p
                = (if filename = ''.'' then path_resolve (cwd e) (path_join [up, ''files''])
                   else path_resolve (cwd e) (path_join [up, ''files'']) @ CHR ''/'' # filename)"
    unfolding p by (rule conjunct2)
  have "prefix (path_resolve (cwd e) (path_join [up, ''files''])) (path_resolve (cwd e) p)"
    unfolding r by simp
  with up p r show ?thesis by blast
qed

theorem resolveFilePath_within_root_witness:
  "resolveFilePath example_env ''report.pdf'' = Inr (Some ''/srv/uploads/files/report.pdf'')
   \<and> uploadPath example_env = Inr ''/srv/uploads''
   \<and> path_resolve ''/srv'' (path_join [''/srv/uploads'', ''files'']) = ''/srv/uploads/files''
   \<and> path_resolve ''/srv'' ''/srv/uploads/files/report.pdf'' = ''/srv/uploads/files/report.pdf''
   \<and> prefix ''/srv/uploads/files'' ''/srv/uploads/files/report.pdf''"
proof -
  have r: "resolveFilePath example_env ''report.pdf'' = Inr (Some ''/srv/uploads/files/report.pdf'')"
    unfolding example_env_def by code_simp
  have u: "uploadPath example_env = Inr ''/srv/uploads''"
    unfolding example_env_def by code_simp
  have a: "path_resolve ''/srv'' (path_join [''/srv/uploads'', ''files'']) = ''/srv/uploads/files''"
    by code_simp
  have b: "path_resolve ''/srv'' ''/srv/uploads/files/report.pdf'' = ''/srv/uploads/files/report.pdf''"
    by code_simp
  have c: "cwd example_env = ''/srv''" by (simp add: example_env_def)
  have j: "path_join [''/srv/uploads'', ''files'', ''report.pdf''] = ''/srv/uploads/files/report.pdf''"
    by code_simp
  from resolveFilePath_within_root [OF r] show ?thesis
    by (simp add: r u a b c j)
qed

section \<open>Properties of the viewer route\<close>

text \<open>
  C9: a request to the viewer route either leaves the state as it is, or stores
  exactly one record, under the nonce drawn, and that record has
  \<open>isPremium = True\<close>. For such a record the gateway's choice of the variant is
  the full document, and whatever \<open>validate\<close> returns for that nonce is premium.
\<close>

theorem viewerRoute_issues_premium:
  assumes "viewerRoute vc st req n k now = (r, st')"
  shows "st' = st
       \<or> (\<exists>d. st' = st\<lparr>store := (store st)(n \<mapsto> d)\<rparr>
              \<and> isPremium d = True
              \<and> (\<forall>e s tc ts. fetchPdf e s d tc ts = getFullPdf e s (file d))
              \<and> (\<forall>t u d'. fst (validate st' t n u) = Some d' \<longrightarrow> isPremium d'))"
proof (cases "st' = st")
  case True
  then show ?thesis by simp
next
  case False
  with assms obtain f g where
    gen: "generate st n k now (uid_or_guest (req_uid req)) (path_basename f) True = (g, st')"
    by (auto simp: viewerRoute_def Let_def split: query_value.splits if_splits prod.splits)
  have st': "st' = snd (generate st n k now (uid_or_guest (req_uid req)) (path_basename f) True)"
    by (simp add: gen)
  define d where "d = \<lparr>uid = uid_or_guest (req_uid req), file = path_basename f,
    isPremium = True, xorKey = k, createdAt = now\<rparr>"
  have "st' = st\<lparr>store := (store st)(n \<mapsto> d)\<rparr>"
    by (simp add: st' generate_def d_def)
  moreover have "isPremium d = True" by (simp add: d_def)
  moreover have "fetchPdf e s d tc ts = getFullPdf e s (file d)" for e s tc ts
    by (simp add: fetchPdf_def d_def)
  moreover have "fst (validate st' t n u) = Some d' \<longrightarrow> isPremium d'" for t u d'
    by (auto simp: st' generate_def validate_def Let_def split: if_splits)
  ultimately show ?thesis by blast
qed

theorem viewerRoute_issues_premium_witness:
  "viewerRoute (Some ''<html></head></html>'') initial_state example_request ''T''
       [1, 2, 3, 4, 5, 6, 7, 8] 1000
     = (Inr \<lparr>status = 200, headers = viewer_headers,
             body = ViewerPage ''report.pdf'' ''T'' ''AQIDBAUGBwg=''\<rparr>, example_state)
   \<and> example_state \<noteq> initial_state
   \<and> store example_state ''T'' = Some example_record
   \<and> isPremium example_record"
proof -
  have b: "toString_base64 [1, 2, 3, 4, 5, 6, 7, 8] = ''AQIDBAUGBwg=''"
    by code_simp
  have bn: "path_basename ''/x/report.pdf'' = ''report.pdf''" by code_simp
  have lc: "endsWith (toLowerCase ''report.pdf'') ''.pdf''" by code_simp
  have v: "viewerRoute (Some ''<html></head></html>'') initial_state example_request ''T''
       [1, 2, 3, 4, 5, 6, 7, 8] 1000
     = (Inr \<lparr>status = 200, headers = viewer_headers,
             body = ViewerPage ''report.pdf'' ''T'' ''AQIDBAUGBwg=''\<rparr>, example_state)"
    by (simp add: viewerRoute_def example_request_def bn lc generate_def b uid_or_guest_def
        Let_def example_state_def example_record_def initial_state_def
        del: toString_base64.simps)
  have s: "store example_state ''T'' = Some example_record"
    by (simp add: example_state_def initial_state_def)
  have ne: "example_state \<noteq> initial_state"
  proof
    assume "example_state = initial_state"
    then have "store example_state ''T'' = store initial_state ''T''" by simp
    then show False by (simp add: s) (simp add: initial_state_def)
  qed
  from viewerRoute_issues_premium [OF v] ne s v show ?thesis
    by (auto simp: example_record_def)
qed

section \<open>Properties of the single-page cache\<close>

lemma getSinglePagePdf_hit:
  assumes "singlePageCache st f = Some c" and "t - cachedAt c < CACHE_TTL"
  shows "getSinglePagePdf e st f t ts = (Inr (buffer c), st)"
  using assms by (simp add: getSinglePagePdf_def)

lemma getSinglePagePdf_miss:
  assumes "\<forall>c. singlePageCache st f = Some c \<longrightarrow> \<not> t - cachedAt c < CACHE_TTL"
  shows "getSinglePagePdf e st f t ts =
     (case readResolved e st f of
        (Inl err, st1) \<Rightarrow> (Inl err, st1)
      | (Inr existingPdfBytes, st1) \<Rightarrow>
          (case pdf_first_page e (buf (heap st1) existingPdfBytes) of
             Inl err \<Rightarrow> (Inl err, st1\<lparr>loadCount := loadCount st1 + 1\<rparr>)
           | Inr pdfBytes \<Rightarrow>
               (Inr (length (heap st1)),
                st1\<lparr>loadCount := loadCount st1 + 1, heap := heap st1 @ [pdfBytes],
                    singlePageCache := (singlePageCache st1)(f \<mapsto>
                      \<lparr>buffer = length (heap st1), cachedAt = ts\<rparr>)\<rparr>)))"
proof -
  have miss: "(case singlePageCache st f of None \<Rightarrow> None
      | Some cached \<Rightarrow> if t - cachedAt cached < CACHE_TTL then Some cached else None) = None"
    using assms by (cases "singlePageCache st f") simp_all
  obtain rr st1 where rr: "readResolved e st f = (rr, st1)" by (cases "readResolved e st f")
  show ?thesis
  proof (cases rr)
    case (Inl err)
    then show ?thesis
      unfolding getSinglePagePdf_def miss rr by simp
  next
    case (Inr a)
    show ?thesis
    proof (cases "pdf_first_page e (buf (heap st1) a)")
      case (Inl err)
      with Inr show ?thesis
        unfolding getSinglePagePdf_def miss rr by (simp add: Let_def)
    next
      case (Inr pdfBytes)
      with \<open>rr = Inr a\<close> show ?thesis
        unfolding getSinglePagePdf_def miss rr by (simp add: Let_def alloc_def)
    qed
  qed
qed

lemma getSinglePagePdf_caches:
  assumes "getSinglePagePdf e st f t ts = (Inr b, st1)"
  shows "\<exists>c. singlePageCache st1 f = Some c \<and> buffer c = b
             \<and> ((\<forall>c0. singlePageCache st f = Some c0 \<longrightarrow> \<not> t - cachedAt c0 < CACHE_TTL)
                  \<longrightarrow> cachedAt c = ts)
             \<and> ((\<exists>c0. singlePageCache st f = Some c0 \<and> t - cachedAt c0 < CACHE_TTL)
                  \<longrightarrow> singlePageCache st f = Some c \<and> st1 = st)"
proof (cases "\<exists>c. singlePageCache st f = Some c \<and> t - cachedAt c < CACHE_TTL")
  case True
  then obtain c where c: "singlePageCache st f = Some c" "t - cachedAt c < CACHE_TTL"
    by auto
  from getSinglePagePdf_hit [OF c] assms have "b = buffer c" "st1 = st" by simp_all
  with c show ?thesis by simp
next
  case False
  then have m: "\<forall>c. singlePageCache st f = Some c \<longrightarrow> \<not> t - cachedAt c < CACHE_TTL"
    by auto
  obtain rr s1 where rr: "readResolved e st f = (rr, s1)" by (cases "readResolved e st f")
  show ?thesis
  proof (cases rr)
    case (Inl err)
    with assms show ?thesis
      unfolding getSinglePagePdf_miss [OF m] rr by simp
  next
    case (Inr a)
    show ?thesis
    proof (cases "pdf_first_page e (buf (heap s1) a)")
      case (Inl err)
      with Inr assms show ?thesis
        unfolding getSinglePagePdf_miss [OF m] rr by simp
    next
      case (Inr pdfBytes)
      with \<open>rr = Inr a\<close> assms have "b = length (heap s1)" and
        "st1 = s1\<lparr>loadCount := loadCount s1 + 1, heap := heap s1 @ [pdfBytes],
                    singlePageCache := (singlePageCache s1)(f \<mapsto>
                      \<lparr>buffer = length (heap s1), cachedAt = ts\<rparr>)\<rparr>"
        unfolding getSinglePagePdf_miss [OF m] rr by auto
      with m show ?thesis by auto
    qed
  qed
qed

text \<open>
  C8: after a call of \<open>getSinglePagePdf\<close> that returned a buffer, the cache holds
  an entry for the filename with that buffer. If the call found no entry, or
  only one that was no longer fresh, the entry is new and its timestamp is the
  time \<open>ts1\<close> of that call; if it found a fresh entry, entry and state are as
  before. A second call while the entry is younger than the cache TTL returns
  the same buffer and leaves the whole state as it is: heap (so the bytes are
  the same), cache, and the counters of file reads and of document loads. This
  holds in every environment: the second call does not depend on the file
  system or on pdf-lib.
\<close>

theorem getSinglePagePdf_served_from_cache:
  assumes "getSinglePagePdf e st f t1 ts1 = (Inr b1, st1)"
  shows "\<exists>c. singlePageCache st1 f = Some c \<and> buffer c = b1
           \<and> ((\<forall>c0. singlePageCache st f = Some c0 \<longrightarrow> \<not> t1 - cachedAt c0 < CACHE_TTL)
                \<longrightarrow> cachedAt c = ts1)
           \<and> ((\<exists>c0. singlePageCache st f = Some c0 \<and> t1 - cachedAt c0 < CACHE_TTL)
                \<longrightarrow> singlePageCache st f = Some c \<and> st1 = st)
           \<and> (t2 - cachedAt c < CACHE_TTL \<longrightarrow>
                (\<forall>e' ts2. getSinglePagePdf e' st1 f t2 ts2 = (Inr b1, st1)))"
proof -
  from getSinglePagePdf_caches [OF assms] obtain c where
    c: "singlePageCache st1 f = Some c \<and> buffer c = b1
         \<and> ((\<forall>c0. singlePageCache st f = Some c0 \<longrightarrow> \<not> t1 - cachedAt c0 < CACHE_TTL)
              \<longrightarrow> cachedAt c = ts1)
         \<and> ((\<exists>c0. singlePageCache st f = Some c0 \<and> t1 - cachedAt c0 < CACHE_TTL)
              \<longrightarrow> singlePageCache st f = Some c \<and> st1 = st)" ..
  from c have c1: "singlePageCache st1 f = Some c" by (rule conjunct1)
  from c have c2: "buffer c = b1" by (rule conjunct2 [THEN conjunct1])
  from c have c3: "(\<forall>c0. singlePageCache st f = Some c0 \<longrightarrow> \<not> t1 - cachedAt c0 < CACHE_TTL)
              \<longrightarrow> cachedAt c = ts1"
    by (rule conjunct2 [THEN conjunct2, THEN conjunct1])
  from c have c3': "(\<exists>c0. singlePageCache st f = Some c0 \<and> t1 - cachedAt c0 < CACHE_TTL)
              \<longrightarrow> singlePageCache st f = Some c \<and> st1 = st"
    by (rule conjunct2 [THEN conjunct2, THEN conjunct2])
  have c4: "t2 - cachedAt c < CACHE_TTL \<longrightarrow>
              (\<forall>e' ts2. getSinglePagePdf e' st1 f t2 ts2 = (Inr b1, st1))"
  proof (intro impI allI)
    fix e' ts2
    assume "t2 - cachedAt c < CACHE_TTL"
    from getSinglePagePdf_hit [OF c1 this, of e' ts2]
    show "getSinglePagePdf e' st1 f t2 ts2 = (Inr b1, st1)"
      unfolding c2 .
  qed
  show ?thesis
    by (rule exI [of _ c]) (intro conjI c1 c2 c3 c3' c4)
qed

lemma example_readResolved:
  "readResolved example_env initial_state ''report.pdf''
     = (Inr 0, initial_state\<lparr>heap := [[37, 80, 68, 70]], readCount := 1\<rparr>)"
proof -
  have r: "resolveFilePath example_env ''report.pdf'' = Inr (Some ''/srv/uploads/files/report.pdf'')"
    unfolding example_env_def by code_simp
  have f: "files example_env ''/srv/uploads/files/report.pdf'' = Some (RegularFile [37, 80, 68, 70])"
    by (simp add: example_env_def)
  show ?thesis
    by (simp add: readResolved_def r f alloc_def initial_state_def)
qed

lemma example_first_call:
  "getSinglePagePdf example_env initial_state ''report.pdf'' 4000 5000 = (Inr 1, example_cached)"
proof -
  have m: "\<forall>c. singlePageCache initial_state ''report.pdf'' = Some c \<longrightarrow> \<not> 4000 - cachedAt c < CACHE_TTL"
    by (simp add: initial_state_def)
  have p: "pdf_first_page example_env [37, 80, 68, 70] = Inr [37, 80]"
    by (simp add: example_env_def)
  show ?thesis
    unfolding getSinglePagePdf_miss [OF m] example_readResolved
    by (simp add: buf_def p initial_state_def example_cached_def)
qed

lemma example_stale_readResolved:
  "readResolved example_env example_cached ''report.pdf''
     = (Inr 2, example_cached\<lparr>heap := [[37, 80, 68, 70], [37, 80], [37, 80, 68, 70]],
                               readCount := 2\<rparr>)"
proof -
  have r: "resolveFilePath example_env ''report.pdf'' = Inr (Some ''/srv/uploads/files/report.pdf'')"
    unfolding example_env_def by code_simp
  have f: "files example_env ''/srv/uploads/files/report.pdf'' = Some (RegularFile [37, 80, 68, 70])"
    by (simp add: example_env_def)
  show ?thesis
    by (simp add: readResolved_def r f alloc_def example_cached_def)
qed

lemma example_stale_call:
  "getSinglePagePdf example_env example_cached ''report.pdf'' 4000000 4000000
     = (Inr 3, example_recached)"
proof -
  have m: "\<forall>c. singlePageCache example_cached ''report.pdf'' = Some c
             \<longrightarrow> \<not> 4000000 - cachedAt c < CACHE_TTL"
    by (simp add: example_cached_def CACHE_TTL_def)
  have p: "pdf_first_page example_env [37, 80, 68, 70] = Inr [37, 80]"
    by (simp add: example_env_def)
  show ?thesis
    unfolding getSinglePagePdf_miss [OF m] example_stale_readResolved
    by (simp add: buf_def p example_cached_def example_recached_def numeral_3_eq_3)
qed

theorem getSinglePagePdf_served_from_cache_witness:
  "getSinglePagePdf example_env initial_state ''report.pdf'' 4000 5000 = (Inr 1, example_cached)
   \<and> buf (heap example_cached) 1 = [37, 80]
   \<and> 3000000 - 5000 < CACHE_TTL
   \<and> getSinglePagePdf empty_env example_cached ''report.pdf'' 3000000 3000001
        = (Inr 1, example_cached)
   \<and> singlePageCache example_cached ''report.pdf'' = Some \<lparr>buffer = 1, cachedAt = 5000\<rparr>
   \<and> \<not> 4000000 - 5000 < CACHE_TTL
   \<and> getSinglePagePdf example_env example_cached ''report.pdf'' 4000000 4000000
        = (Inr 3, example_recached)
   \<and> singlePageCache example_recached ''report.pdf'' = Some \<lparr>buffer = 3, cachedAt = 4000000\<rparr>
   \<and> getSinglePagePdf empty_env example_recached ''report.pdf'' 4000001 4000001
        = (Inr 3, example_recached)
   \<and> readCount example_recached = 2"
proof -
  have fresh: "3000000 - 5000 < CACHE_TTL" by (simp add: CACHE_TTL_def)
  have stale: "\<not> 4000000 - 5000 < CACHE_TTL" by (simp add: CACHE_TTL_def)
  have c: "singlePageCache example_cached ''report.pdf'' = Some \<lparr>buffer = 1, cachedAt = 5000\<rparr>"
    by (simp add: example_cached_def)
  have c': "singlePageCache example_recached ''report.pdf''
              = Some \<lparr>buffer = 3, cachedAt = 4000000\<rparr>"
    by (simp add: example_recached_def)
  have rc: "readCount example_recached = 2" by (simp add: example_recached_def)
  have fresh': "4000001 - 4000000 < CACHE_TTL" by (simp add: CACHE_TTL_def)
  from getSinglePagePdf_served_from_cache [OF example_first_call, of 3000000]
  have 1: "getSinglePagePdf empty_env example_cached ''report.pdf'' 3000000 3000001
        = (Inr 1, example_cached)"
    unfolding c using fresh by simp
  from getSinglePagePdf_served_from_cache [OF example_stale_call, of 4000001]
  have 2: "getSinglePagePdf empty_env example_recached ''report.pdf'' 4000001 4000001
        = (Inr 3, example_recached)"
    unfolding c' using fresh' by simp
  have b: "buf (heap example_cached) 1 = [37, 80]"
    by (simp add: example_cached_def buf_def)
  from 1 2 b c c' rc fresh stale example_first_call example_stale_call
  show ?thesis by simp
qed

section \<open>What the handlers do to the heap and to the cache\<close>

lemma validate_frame:
  assumes "validate st t n u = (r, st1)"
  shows "heap st1 = heap st \<and> singlePageCache st1 = singlePageCache st"
  using assms by (auto simp: validate_def Let_def split: option.splits if_splits)

lemma readResolved_rejected:
  assumes "resolveFilePath e f = Inr None"
  shows "readResolved e st f = (Inl (Error ''Invalid filename''), st)"
  by (simp add: readResolved_def assms)

lemma readResolved_frame:
  assumes "readResolved e st f = (r, st1)"
  shows "singlePageCache st1 = singlePageCache st \<and> store st1 = store st
       \<and> (\<exists>ext. heap st1 = heap st @ ext)"
  using assms
  by (auto simp: readResolved_def alloc_def
      split: sum.splits option.splits if_splits fs_entry.splits)

lemma readResolved_ref:
  assumes "readResolved e st f = (Inr a, st1)"
  shows "a < length (heap st1)"
  using assms
  by (auto simp: readResolved_def alloc_def
      split: sum.splits option.splits if_splits fs_entry.splits)

lemma buf_append: "a < length h \<Longrightarrow> buf (h @ ext) a = buf h a"
  by (simp add: buf_def nth_append)


lemma getSinglePagePdf_cases:
  assumes "getSinglePagePdf e st f t ts = (r, st1)"
  obtains
    (hit) c where "singlePageCache st f = Some c" "t - cachedAt c < CACHE_TTL"
      "r = Inr (buffer c)" "st1 = st"
  | (read_failed) err where "readResolved e st f = (Inl err, st1)" "r = Inl err"
  | (load_failed) a s1 err where "readResolved e st f = (Inr a, s1)"
      "pdf_first_page e (buf (heap s1) a) = Inl err" "r = Inl err"
      "st1 = s1\<lparr>loadCount := loadCount s1 + 1\<rparr>"
  | (stored) a s1 pdfBytes where "readResolved e st f = (Inr a, s1)"
      "pdf_first_page e (buf (heap s1) a) = Inr pdfBytes" "r = Inr (length (heap s1))"
      "st1 = s1\<lparr>loadCount := loadCount s1 + 1, heap := heap s1 @ [pdfBytes],
                  singlePageCache := (singlePageCache s1)(f \<mapsto>
                    \<lparr>buffer = length (heap s1), cachedAt = ts\<rparr>)\<rparr>"
proof (cases "\<exists>c. singlePageCache st f = Some c \<and> t - cachedAt c < CACHE_TTL")
  case True
  then obtain c where c: "singlePageCache st f = Some c" "t - cachedAt c < CACHE_TTL"
    by auto
  from getSinglePagePdf_hit [OF c, of e ts] assms have "r = Inr (buffer c)" "st1 = st"
    by auto
  with c show ?thesis by (rule hit)
next
  case False
  then have m: "\<forall>c. singlePageCache st f = Some c \<longrightarrow> \<not> t - cachedAt c < CACHE_TTL"
    by auto
  obtain rr s1 where rr: "readResolved e st f = (rr, s1)" by (cases "readResolved e st f")
  show ?thesis
  proof (cases rr)
    case (Inl err)
    with assms have "r = Inl err" "st1 = s1"
      unfolding getSinglePagePdf_miss [OF m] rr by auto
    with rr Inl show ?thesis by (auto intro: read_failed)
  next
    case (Inr a)
    show ?thesis
    proof (cases "pdf_first_page e (buf (heap s1) a)")
      case (Inl err)
      with Inr assms have "r = Inl err" "st1 = s1\<lparr>loadCount := loadCount s1 + 1\<rparr>"
        unfolding getSinglePagePdf_miss [OF m] rr by auto
      with rr Inr Inl show ?thesis by (auto intro: load_failed)
    next
      case (Inr pdfBytes)
      with \<open>rr = Inr a\<close> assms have "r = Inr (length (heap s1))"
        "st1 = s1\<lparr>loadCount := loadCount s1 + 1, heap := heap s1 @ [pdfBytes],
                  singlePageCache := (singlePageCache s1)(f \<mapsto>
                    \<lparr>buffer = length (heap s1), cachedAt = ts\<rparr>)\<rparr>"
        unfolding getSinglePagePdf_miss [OF m] rr by auto
      with rr \<open>rr = Inr a\<close> Inr show ?thesis by (auto intro: stored)
    qed
  qed
qed


lemma cache_refs_ok_ext:
  assumes "cache_refs_ok st" and "singlePageCache st2 = singlePageCache st"
    and "heap st2 = heap st @ ext"
  shows "cache_refs_ok st2"
  unfolding cache_refs_ok_def
proof (intro allI impI)
  fix f c assume "singlePageCache st2 f = Some c"
  with assms(1,2) have "buffer c < length (heap st)" by (simp add: cache_refs_ok_def)
  then show "buffer c < length (heap st2)" by (simp add: assms(3))
qed

lemma getSinglePagePdf_effect:
  assumes "getSinglePagePdf e st f t ts = (r, st2)" and ok: "cache_refs_ok st"
  shows "(\<exists>ext. heap st2 = heap st @ ext)
       \<and> cache_refs_ok st2
       \<and> (\<forall>b. r = Inr b \<longrightarrow> b < length (heap st2))
       \<and> (\<forall>g c. singlePageCache st2 g = Some c \<longrightarrow>
             singlePageCache st g = Some c
             \<or> (\<exists>src. pdf_first_page e src = Inr (buf (heap st2) (buffer c))))"
  using assms(1)
proof (cases rule: getSinglePagePdf_cases)
  case (hit c)
  with ok show ?thesis by (auto simp: cache_refs_ok_def)
next
  case (read_failed err)
  from readResolved_frame [OF read_failed(1)] obtain ext where
    fr: "singlePageCache st2 = singlePageCache st" "heap st2 = heap st @ ext"
    by auto
  from cache_refs_ok_ext [OF ok fr] fr read_failed(2) show ?thesis by simp
next
  case (load_failed a s1 err)
  from readResolved_frame [OF load_failed(1)] obtain ext where
    "singlePageCache s1 = singlePageCache st" "heap s1 = heap st @ ext"
    by auto
  then have fr: "singlePageCache st2 = singlePageCache st" "heap st2 = heap st @ ext"
    by (simp_all add: load_failed(4))
  from cache_refs_ok_ext [OF ok fr] fr load_failed(3) show ?thesis by simp
next
  case (stored a s1 pdfBytes)
  from readResolved_frame [OF stored(1)] obtain ext where
    fr: "singlePageCache s1 = singlePageCache st" "heap s1 = heap st @ ext"
    by auto
  have h2: "heap st2 = heap st @ (ext @ [pdfBytes])"
    by (simp add: stored(4) fr)
  have new: "buf (heap st2) (length (heap s1)) = pdfBytes"
    by (simp add: stored(4) buf_append_new)
  have c2: "singlePageCache st2 = (singlePageCache st)(f \<mapsto>
              \<lparr>buffer = length (heap s1), cachedAt = ts\<rparr>)"
    by (simp add: stored(4) fr)
  have "cache_refs_ok st2"
    unfolding cache_refs_ok_def
  proof (intro allI impI)
    fix g c assume g: "singlePageCache st2 g = Some c"
    show "buffer c < length (heap st2)"
    proof (cases "g = f")
      case True
      with g have "buffer c = length (heap s1)" unfolding c2 by auto
      then show ?thesis by (simp add: h2 fr)
    next
      case False
      with g have "singlePageCache st g = Some c" unfolding c2 by simp
      with ok have "buffer c < length (heap st)" by (simp add: cache_refs_ok_def)
      then show ?thesis by (simp add: h2)
    qed
  qed
  moreover have "\<forall>b. r = Inr b \<longrightarrow> b < length (heap st2)"
    by (simp add: stored(3) h2 fr)
  moreover have "singlePageCache st g = Some c
      \<or> (\<exists>src. pdf_first_page e src = Inr (buf (heap st2) (buffer c)))"
    if "singlePageCache st2 g = Some c" for g c
  proof (cases "g = f")
    case True
    with that have "buffer c = length (heap s1)" unfolding c2 by auto
    with new stored(2) show ?thesis by auto
  next
    case False
    with that show ?thesis unfolding c2 by simp
  qed
  ultimately show ?thesis using h2 by blast
qed

lemma getFullPdf_effect:
  assumes "getFullPdf e st f = (r, st2)" and ok: "cache_refs_ok st"
  shows "(\<exists>ext. heap st2 = heap st @ ext)
       \<and> cache_refs_ok st2
       \<and> (\<forall>b. r = Inr b \<longrightarrow> b < length (heap st2))
       \<and> (\<forall>g c. singlePageCache st2 g = Some c \<longrightarrow>
             singlePageCache st g = Some c
             \<or> (\<exists>src. pdf_first_page e src = Inr (buf (heap st2) (buffer c))))"
proof -
  from assms(1) have rr: "readResolved e st f = (r, st2)" by (simp add: getFullPdf_def)
  from readResolved_frame [OF rr] obtain ext where
    fr: "singlePageCache st2 = singlePageCache st" "heap st2 = heap st @ ext"
    by auto
  have "cache_refs_ok st2" using ok fr by (rule cache_refs_ok_ext)
  moreover have "\<forall>b. r = Inr b \<longrightarrow> b < length (heap st2)"
    using readResolved_ref rr by blast
  ultimately show ?thesis using fr by simp
qed

lemma fetchPdf_effect:
  assumes "fetchPdf e st d tc ts = (r, st2)" and ok: "cache_refs_ok st"
  shows "(\<exists>ext. heap st2 = heap st @ ext)
       \<and> cache_refs_ok st2
       \<and> (\<forall>b. r = Inr b \<longrightarrow> b < length (heap st2))
       \<and> (\<forall>g c. singlePageCache st2 g = Some c \<longrightarrow>
             singlePageCache st g = Some c
             \<or> (\<exists>src. pdf_first_page e src = Inr (buf (heap st2) (buffer c))))"
proof (cases "isPremium d")
  case True
  with assms(1) have "getFullPdf e st (file d) = (r, st2)" by (simp add: fetchPdf_def)
  from getFullPdf_effect [OF this ok] show ?thesis .
next
  case False
  with assms(1) have "getSinglePagePdf e st (file d) tc ts = (r, st2)"
    by (simp add: fetchPdf_def)
  from getSinglePagePdf_effect [OF this ok] show ?thesis .
qed

section \<open>The paths through the gateway\<close>

lemma servePdfBinary_cases:
  assumes "servePdfBinary e st req tv tc ts = (resp, st')"
  obtains
    (no_nonce) "resp = json_error 400 ''Missing nonce''" "st' = st"
  | (not_string) "query_nonce req = Structured"
      "resp = json_error 403 ''Invalid or expired nonce''" "st' = st"
  | (refused) nonce where "query_nonce req = Text nonce" "nonce \<noteq> []"
      "validate st tv nonce (uid_or_guest (req_uid req)) = (None, st')"
      "resp = json_error 403 ''Invalid or expired nonce''"
  | (failed) nonce d st1 err where "query_nonce req = Text nonce" "nonce \<noteq> []"
      "validate st tv nonce (uid_or_guest (req_uid req)) = (Some d, st1)"
      "fetchPdf e st1 d tc ts = (Inl err, st')"
      "resp = (if message err = ''File not found'' then json_error 404 ''PDF not found''
               else json_error 500 ''Internal error'')"
  | (sent) nonce d st1 pdfBuffer st2 encodedBuffer h where
      "query_nonce req = Text nonce" "nonce \<noteq> []"
      "validate st tv nonce (uid_or_guest (req_uid req)) = (Some d, st1)"
      "fetchPdf e st1 d tc ts = (Inr pdfBuffer, st2)"
      "partialXorEncode (heap st2) pdfBuffer (xorKey d) = (encodedBuffer, h)"
      "resp = \<lparr>status = 200, headers = binary_headers, body = Binary encodedBuffer\<rparr>"
      "st' = st2\<lparr>heap := h\<rparr>"
proof (cases "query_nonce req")
  case Missing
  with assms have "resp = json_error 400 ''Missing nonce''" "st' = st"
    by (simp_all add: servePdfBinary_def)
  then show ?thesis by (rule no_nonce)
next
  case Structured
  with assms have "resp = json_error 403 ''Invalid or expired nonce''" "st' = st"
    by (simp_all add: servePdfBinary_def)
  with Structured show ?thesis by (rule not_string)
next
  case (Text nonce)
  show ?thesis
  proof (cases "nonce = []")
    case True
    with Text assms have "resp = json_error 400 ''Missing nonce''" "st' = st"
      by (simp_all add: servePdfBinary_def)
    then show ?thesis by (rule no_nonce)
  next
    case False
    obtain v st1 where v: "validate st tv nonce (uid_or_guest (req_uid req)) = (v, st1)"
      by (cases "validate st tv nonce (uid_or_guest (req_uid req))")
    show ?thesis
    proof (cases v)
      case None
      with Text False v assms have "resp = json_error 403 ''Invalid or expired nonce''" "st' = st1"
        by (simp_all add: servePdfBinary_def)
      with Text False v None show ?thesis by (auto intro: refused)
    next
      case (Some d)
      obtain r st2 where r: "fetchPdf e st1 d tc ts = (r, st2)"
        by (cases "fetchPdf e st1 d tc ts")
      show ?thesis
      proof (cases r)
        case (Inl err)
        with Text False v Some r assms have
          "resp = (if message err = ''File not found'' then json_error 404 ''PDF not found''
               else json_error 500 ''Internal error'')" "st' = st2"
          by (simp_all add: servePdfBinary_def split: if_splits)
        with Text False v Some r Inl show ?thesis by (auto intro: failed)
      next
        case (Inr pdfBuffer)
        obtain enc h where x: "partialXorEncode (heap st2) pdfBuffer (xorKey d) = (enc, h)"
          by (cases "partialXorEncode (heap st2) pdfBuffer (xorKey d)")
        with Text False v Some r Inr assms have
          "resp = \<lparr>status = 200, headers = binary_headers, body = Binary enc\<rparr>"
          "st' = st2\<lparr>heap := h\<rparr>"
          by (simp_all add: servePdfBinary_def)
        with Text False v Some r Inr x show ?thesis by (auto intro: sent)
      qed
    qed
  qed
qed

lemma servePdfBinary_effect:
  assumes serve: "servePdfBinary e st req tv tc ts = (resp, st')" and ok: "cache_refs_ok st"
  shows "(\<forall>a < length (heap st). buf (heap st') a = buf (heap st) a)
       \<and> cache_refs_ok st'
       \<and> (\<forall>g c. singlePageCache st' g = Some c \<longrightarrow>
             singlePageCache st g = Some c
             \<or> (\<exists>src. pdf_first_page e src = Inr (buf (heap st') (buffer c))))"
  using serve
proof (cases rule: servePdfBinary_cases)
  case no_nonce
  with ok show ?thesis by simp
next
  case not_string
  with ok show ?thesis by simp
next
  case (refused nonce)
  from validate_frame [OF refused(3)] have fr:
    "heap st' = heap st" "singlePageCache st' = singlePageCache st" by simp_all
  from ok fr have "cache_refs_ok st'" by (simp add: cache_refs_ok_def)
  with fr show ?thesis by simp
next
  case (failed nonce d st1 err)
  from validate_frame [OF failed(3)] have fr:
    "heap st1 = heap st" "singlePageCache st1 = singlePageCache st" by simp_all
  from ok fr have ok1: "cache_refs_ok st1" by (simp add: cache_refs_ok_def)
  from fetchPdf_effect [OF failed(4) ok1] obtain ext where
    ext: "heap st' = heap st1 @ ext" and ok': "cache_refs_ok st'" and
    new: "\<forall>g c. singlePageCache st' g = Some c \<longrightarrow>
             singlePageCache st1 g = Some c
             \<or> (\<exists>src. pdf_first_page e src = Inr (buf (heap st') (buffer c)))"
    by auto
  have "\<forall>a < length (heap st). buf (heap st') a = buf (heap st) a"
    by (simp add: ext fr buf_append)
  with ok' new show ?thesis by (simp add: fr)
next
  case (sent nonce d st1 pdfBuffer st2 encodedBuffer h)
  from validate_frame [OF sent(3)] have fr:
    "heap st1 = heap st" "singlePageCache st1 = singlePageCache st" by simp_all
  from ok fr have ok1: "cache_refs_ok st1" by (simp add: cache_refs_ok_def)
  from fetchPdf_effect [OF sent(4) ok1] obtain ext where
    ext: "heap st2 = heap st1 @ ext" and ok2: "cache_refs_ok st2" and
    new: "\<forall>g c. singlePageCache st2 g = Some c \<longrightarrow>
             singlePageCache st1 g = Some c
             \<or> (\<exists>src. pdf_first_page e src = Inr (buf (heap st2) (buffer c)))"
    by auto
  have kept: "buf h a = buf (heap st2) a" if "a < length (heap st2)" for a
    using partialXorEncode_other [OF sent(5) that] .
  have len: "length h = Suc (length (heap st2))"
    using partialXorEncode_data [OF sent(5)] by simp
  have h': "heap st' = h" and c': "singlePageCache st' = singlePageCache st2"
    by (simp_all add: sent(7))
  have 1: "\<forall>a < length (heap st). buf (heap st') a = buf (heap st) a"
  proof (intro allI impI)
    fix a assume a: "a < length (heap st)"
    then have "a < length (heap st2)" by (simp add: ext fr)
    from kept [OF this] a show "buf (heap st') a = buf (heap st) a"
      by (simp add: h' ext fr buf_append)
  qed
  have 2: "cache_refs_ok st'"
    unfolding cache_refs_ok_def
  proof (intro allI impI)
    fix g c assume "singlePageCache st' g = Some c"
    with ok2 have "buffer c < length (heap st2)" by (simp add: c' cache_refs_ok_def)
    then show "buffer c < length (heap st')" by (simp add: h' len)
  qed
  have 3: "\<forall>g c. singlePageCache st' g = Some c \<longrightarrow>
             singlePageCache st g = Some c
             \<or> (\<exists>src. pdf_first_page e src = Inr (buf (heap st') (buffer c)))"
  proof (intro allI impI)
    fix g c assume g: "singlePageCache st' g = Some c"
    then have g2: "singlePageCache st2 g = Some c" by (simp add: c')
    with ok2 have "buffer c < length (heap st2)" by (simp add: cache_refs_ok_def)
    from kept [OF this] have "buf (heap st') (buffer c) = buf (heap st2) (buffer c)"
      by (simp add: h')
    with new g2 show "singlePageCache st g = Some c
             \<or> (\<exists>src. pdf_first_page e src = Inr (buf (heap st') (buffer c)))"
      by (simp add: fr)
  qed
  from 1 2 3 show ?thesis by simp
qed

section \<open>Properties of the gateway\<close>

text \<open>
  C10: \<open>partialXorEncode\<close> writes to a new buffer only: the reference it returns
  is new, and every buffer of the heap before the call has the same bytes after
  it, the input included. Hence serving a request changes no buffer that
  existed before: every cached single-page buffer has the same bytes before and
  after, the cache still refers to buffers of the heap, and an entry cached
  during the request holds exactly the bytes pdf-lib produced.
\<close>

theorem partialXorEncode_keeps_input:
  "(partialXorEncode h b k = (d, h') \<longrightarrow>
      d = length h \<and> (b < length h \<longrightarrow> d \<noteq> b)
      \<and> (\<forall>a < length h. buf h' a = buf h a))
   \<and> (servePdfBinary e st req tv tc ts = (resp, st') \<and> cache_refs_ok st \<longrightarrow>
        (\<forall>a < length (heap st). buf (heap st') a = buf (heap st) a)
        \<and> (\<forall>f c. singlePageCache st f = Some c \<longrightarrow>
              buf (heap st') (buffer c) = buf (heap st) (buffer c))
        \<and> cache_refs_ok st'
        \<and> (\<forall>f c. singlePageCache st' f = Some c \<longrightarrow>
              singlePageCache st f = Some c
              \<or> (\<exists>src. pdf_first_page e src = Inr (buf (heap st') (buffer c)))))"
proof (intro conjI impI)
  assume x: "partialXorEncode h b k = (d, h')"
  show "d = length h" using partialXorEncode_data [OF x] by simp
  then show "d \<noteq> b" if "b < length h" using that by simp
  show "\<forall>a < length h. buf h' a = buf h a"
    using partialXorEncode_other [OF x] by simp
next
  assume "servePdfBinary e st req tv tc ts = (resp, st') \<and> cache_refs_ok st"
  then have s: "servePdfBinary e st req tv tc ts = (resp, st')" and ok: "cache_refs_ok st"
    by simp_all
  note eff = servePdfBinary_effect [OF s ok]
  from eff show "\<forall>a < length (heap st). buf (heap st') a = buf (heap st) a" by simp
  then show "\<forall>f c. singlePageCache st f = Some c \<longrightarrow>
              buf (heap st') (buffer c) = buf (heap st) (buffer c)"
    using ok by (simp add: cache_refs_ok_def)
  from eff show "cache_refs_ok st'" by simp
  from eff show "\<forall>f c. singlePageCache st' f = Some c \<longrightarrow>
              singlePageCache st f = Some c
              \<or> (\<exists>src. pdf_first_page e src = Inr (buf (heap st') (buffer c)))"
    by simp
qed

lemma restricted_refs_ok: "cache_refs_ok restricted_state"
  by (simp add: cache_refs_ok_def restricted_state_def example_cached_def)

lemma restricted_serve:
  "servePdfBinary empty_env restricted_state restricted_request 7000 7000 7000
     = (\<lparr>status = 200, headers = binary_headers, body = Binary 2\<rparr>,
        restricted_state\<lparr>store := Map.empty,
                          heap := [[37, 80, 68, 70], [37, 80], [218, 81]]\<rparr>)"
proof -
  have v: "validate restricted_state 7000 ''R'' 0
             = (Some restricted_record, restricted_state\<lparr>store := Map.empty\<rparr>)"
    by (simp add: validate_def restricted_state_def restricted_record_def NONCE_TTL_def)
  have c: "singlePageCache (restricted_state\<lparr>store := Map.empty\<rparr>) ''report.pdf''
             = Some \<lparr>buffer = 1, cachedAt = 5000\<rparr>"
    by (simp add: restricted_state_def example_cached_def)
  have "7000 - cachedAt \<lparr>buffer = 1, cachedAt = 5000\<rparr> < CACHE_TTL"
    by (simp add: CACHE_TTL_def)
  from getSinglePagePdf_hit [OF c this, of empty_env 7000]
  have f: "fetchPdf empty_env (restricted_state\<lparr>store := Map.empty\<rparr>) restricted_record 7000 7000
             = (Inr 1, restricted_state\<lparr>store := Map.empty\<rparr>)"
    by (simp add: fetchPdf_def restricted_record_def)
  have x: "partialXorEncode [[37, 80, 68, 70], [37, 80]] 1 [255, 1]
             = (2, [[37, 80, 68, 70], [37, 80], [218, 81]])"
    by code_simp
  have h: "heap (restricted_state\<lparr>store := Map.empty\<rparr>) = [[37, 80, 68, 70], [37, 80]]"
    by (simp add: restricted_state_def example_cached_def)
  have k: "xorKey restricted_record = [255, 1]" by (simp add: restricted_record_def)
  show ?thesis
    by (simp add: servePdfBinary_def restricted_request_def uid_or_guest_def v f h k x
        del: One_nat_def)
qed

theorem partialXorEncode_keeps_input_witness:
  "cache_refs_ok restricted_state
   \<and> servePdfBinary empty_env restricted_state restricted_request 7000 7000 7000
     = (\<lparr>status = 200, headers = binary_headers, body = Binary 2\<rparr>,
        restricted_state\<lparr>store := Map.empty,
                          heap := [[37, 80, 68, 70], [37, 80], [218, 81]]\<rparr>)
   \<and> singlePageCache restricted_state ''report.pdf'' = Some \<lparr>buffer = 1, cachedAt = 5000\<rparr>
   \<and> buf (heap restricted_state) 1 = [37, 80]
   \<and> buf [[37, 80, 68, 70], [37, 80], [218, 81]] 1 = [37, 80]
   \<and> buf [[37, 80, 68, 70], [37, 80], [218, 81]] 2 = [218, 81]"
proof -
  have c: "singlePageCache restricted_state ''report.pdf'' = Some \<lparr>buffer = 1, cachedAt = 5000\<rparr>"
    by (simp add: restricted_state_def example_cached_def)
  have b: "buf (heap restricted_state) 1 = [37, 80]"
    by (simp add: restricted_state_def example_cached_def buf_def)
  have n: "buf [[37, 80, 68, 70], [37, 80], [218, 81]] 2 = [218, 81]"
    by (simp add: buf_def)
  from partialXorEncode_keeps_input [of "[]" 0 "[]" 0 "[[]]"
      empty_env restricted_state restricted_request 7000 7000 7000
      "\<lparr>status = 200, headers = binary_headers, body = Binary 2\<rparr>"
      "restricted_state\<lparr>store := Map.empty,
                          heap := [[37, 80, 68, 70], [37, 80], [218, 81]]\<rparr>"]
    restricted_serve restricted_refs_ok
  have "\<forall>f c. singlePageCache restricted_state f = Some c \<longrightarrow>
            buf [[37, 80, 68, 70], [37, 80], [218, 81]] (buffer c) =
            buf (heap restricted_state) (buffer c)"
    by simp
  from this [rule_format, OF c]
  have "buf [[37, 80, 68, 70], [37, 80], [218, 81]] 1 = buf (heap restricted_state) 1"
    by simp
  with restricted_serve restricted_refs_ok c b n show ?thesis by simp
qed

lemma readResolved_accepted:
  assumes "readResolved e st f = (Inr a, st1)"
  shows "\<exists>p. resolveFilePath e f = Inr (Some p)"
  using assms
  by (auto simp: readResolved_def split: sum.splits option.splits if_splits fs_entry.splits)

lemma cache_names_ok_initial: "cache_names_ok e initial_state"
  by (simp add: cache_names_ok_def initial_state_def)

lemma fetchPdf_names_ok:
  assumes "fetchPdf e st d tc ts = (r, st2)" and ok: "cache_names_ok e st"
  shows "cache_names_ok e st2"
proof (cases "isPremium d")
  case True
  with assms(1) have "readResolved e st (file d) = (r, st2)"
    by (simp add: fetchPdf_def getFullPdf_def)
  from readResolved_frame [OF this] ok show ?thesis by (simp add: cache_names_ok_def)
next
  case False
  with assms(1) have "getSinglePagePdf e st (file d) tc ts = (r, st2)"
    by (simp add: fetchPdf_def)
  then show ?thesis
  proof (cases rule: getSinglePagePdf_cases)
    case (hit c)
    with ok show ?thesis by simp
  next
    case (read_failed err)
    from readResolved_frame [OF read_failed(1)] ok show ?thesis
      by (simp add: cache_names_ok_def)
  next
    case (load_failed a s1 err)
    from readResolved_frame [OF load_failed(1)] ok show ?thesis
      by (simp add: cache_names_ok_def load_failed(4))
  next
    case (stored a s1 pdfBytes)
    from readResolved_frame [OF stored(1)] have
      c: "singlePageCache s1 = singlePageCache st" by simp
    from readResolved_accepted [OF stored(1)] ok show ?thesis
      by (auto simp: cache_names_ok_def stored(4) c)
  qed
qed

lemma servePdfBinary_names_ok:
  assumes "servePdfBinary e st req tv tc ts = (resp, st')" and ok: "cache_names_ok e st"
  shows "cache_names_ok e st'"
  using assms(1)
proof (cases rule: servePdfBinary_cases)
  case no_nonce
  with ok show ?thesis by simp
next
  case not_string
  with ok show ?thesis by simp
next
  case (refused nonce)
  from validate_frame [OF refused(3)] ok show ?thesis by (simp add: cache_names_ok_def)
next
  case (failed nonce d st1 err)
  from validate_frame [OF failed(3)] ok have "cache_names_ok e st1"
    by (simp add: cache_names_ok_def)
  from fetchPdf_names_ok [OF failed(4) this] show ?thesis .
next
  case (sent nonce d st1 pdfBuffer st2 encodedBuffer h)
  from validate_frame [OF sent(3)] ok have "cache_names_ok e st1"
    by (simp add: cache_names_ok_def)
  from fetchPdf_names_ok [OF sent(4) this] show ?thesis
    by (simp add: cache_names_ok_def sent(7))
qed

lemma fetchPdf_rejected:
  assumes rej: "resolveFilePath e (file d) = Inr None" and ok: "cache_names_ok e st"
  shows "fetchPdf e st d tc ts = (Inl (Error ''Invalid filename''), st)"
proof (cases "isPremium d")
  case True
  then show ?thesis
    by (simp add: fetchPdf_def getFullPdf_def readResolved_rejected [OF rej])
next
  case False
  have "singlePageCache st (file d) = None"
  proof (cases "singlePageCache st (file d)")
    case (Some c)
    with ok obtain p where "resolveFilePath e (file d) = Inr (Some p)"
      by (auto simp: cache_names_ok_def)
    with rej show ?thesis by simp
  qed simp
  then have m: "\<forall>c. singlePageCache st (file d) = Some c \<longrightarrow> \<not> tc - cachedAt c < CACHE_TTL"
    by simp
  from False show ?thesis
    by (simp add: fetchPdf_def getSinglePagePdf_miss [OF m] readResolved_rejected [OF rej])
qed

text \<open>
  C3: as the code has it, when the record that \<open>validate\<close> returned names a file
  that \<open>resolveFilePath\<close> rejects, the response has status 500 and the body
  \<^verbatim>\<open>{ error: 'Internal error' }\<close>, and nothing else: both fetch functions throw
  \<^verbatim>\<open>Error('Invalid filename')\<close>, and the handler answers every error other than
  \<^verbatim>\<open>'File not found'\<close> with that response. (The cache holds accepted names only,
  which every state reached from the initial one satisfies.)
\<close>

theorem servePdfBinary_rejected_name:
  assumes "query_nonce req = Text nonce" and "nonce \<noteq> []"
    and "validate st tv nonce (uid_or_guest (req_uid req)) = (Some d, st1)"
    and "resolveFilePath e (file d) = Inr None"
    and "cache_names_ok e st"
  shows "fst (servePdfBinary e st req tv tc ts)
           = \<lparr>status = 500, headers = [], body = JsonError ''Internal error''\<rparr>"
proof -
  from validate_frame [OF assms(3)] assms(5) have "cache_names_ok e st1"
    by (simp add: cache_names_ok_def)
  from fetchPdf_rejected [OF assms(4) this]
  show ?thesis
    by (simp add: servePdfBinary_def assms(1,2,3) json_error_def)
qed

lemma dotted_issued:
  "viewerRoute (Some ''<html></head></html>'') initial_state dotted_view_request ''B''
       [1, 2, 3, 4, 5, 6, 7, 8] 1000
     = (Inr \<lparr>status = 200, headers = viewer_headers,
             body = ViewerPage ''a..pdf'' ''B'' ''AQIDBAUGBwg=''\<rparr>, dotted_state)"
proof -
  have b: "toString_base64 [1, 2, 3, 4, 5, 6, 7, 8] = ''AQIDBAUGBwg=''"
    by code_simp
  have bn: "path_basename ''a..pdf'' = ''a..pdf''" by code_simp
  have lc: "endsWith (toLowerCase ''a..pdf'') ''.pdf''" by code_simp
  show ?thesis
    by (simp add: viewerRoute_def dotted_view_request_def bn lc generate_def b uid_or_guest_def
        Let_def dotted_state_def dotted_record_def initial_state_def
        del: toString_base64.simps)
qed

lemma dotted_validate:
  "validate dotted_state 2000 ''B'' 42 = (Some dotted_record, initial_state)"
  by (simp add: validate_def dotted_state_def dotted_record_def initial_state_def NONCE_TTL_def)

lemma dotted_rejected: "resolveFilePath example_env (file dotted_record) = Inr None"
proof -
  have "str_includes ''a..pdf'' ''..''" by code_simp
  then show ?thesis
    by (simp add: dotted_record_def resolveFilePath_rejects_dotdot)
qed

text \<open>
  The viewer route issues a nonce for the name \<^verbatim>\<open>a..pdf\<close>; the gateway redeems it,
  the path resolver rejects the name, and the status of the response is 500,
  neither 400 nor 403.
\<close>

theorem servePdfBinary_rejected_name_counterexample:
  "fst (validate dotted_state 2000 ''B'' (uid_or_guest (req_uid dotted_request)))
     = Some dotted_record
   \<and> resolveFilePath example_env (file dotted_record) = Inr None
   \<and> status (fst (servePdfBinary example_env dotted_state dotted_request 2000 2000 2000)) = 500
   \<and> \<not> (status (fst (servePdfBinary example_env dotted_state dotted_request 2000 2000 2000)) = 400
        \<or> status (fst (servePdfBinary example_env dotted_state dotted_request 2000 2000 2000)) = 403)"
proof -
  have u: "uid_or_guest (req_uid dotted_request) = 42"
    by (simp add: dotted_request_def uid_or_guest_def)
  have f: "fetchPdf example_env initial_state dotted_record 2000 2000
             = (Inl (Error ''Invalid filename''), initial_state)"
    using dotted_rejected cache_names_ok_initial by (rule fetchPdf_rejected)
  have "servePdfBinary example_env dotted_state dotted_request 2000 2000 2000
          = (json_error 500 ''Internal error'', initial_state)"
    by (simp add: servePdfBinary_def dotted_request_def uid_or_guest_def dotted_validate f)
  then show ?thesis
    by (simp add: u dotted_validate dotted_rejected json_error_def)
qed

theorem servePdfBinary_rejected_name_witness:
  "query_nonce dotted_request = Text ''B'' \<and> ''B'' \<noteq> []
   \<and> validate dotted_state 2000 ''B'' (uid_or_guest (req_uid dotted_request))
        = (Some dotted_record, initial_state)
   \<and> resolveFilePath example_env (file dotted_record) = Inr None
   \<and> cache_names_ok example_env dotted_state
   \<and> fst (servePdfBinary example_env dotted_state dotted_request 2000 2000 2000)
        = \<lparr>status = 500, headers = [], body = JsonError ''Internal error''\<rparr>"
proof -
  have q: "query_nonce dotted_request = Text ''B''" by (simp add: dotted_request_def)
  have n: "''B'' \<noteq> []" by simp
  have v: "validate dotted_state 2000 ''B'' (uid_or_guest (req_uid dotted_request))
        = (Some dotted_record, initial_state)"
    by (simp add: dotted_request_def uid_or_guest_def dotted_validate)
  have ok: "cache_names_ok example_env dotted_state"
    by (simp add: cache_names_ok_def dotted_state_def initial_state_def)
  from servePdfBinary_rejected_name [OF q n v dotted_rejected ok, of 2000 2000]
    q v dotted_rejected ok
  show ?thesis by simp
qed

section \<open>The cache invariants hold in every state the handlers reach\<close>

lemma cache_refs_ok_initial: "cache_refs_ok initial_state"
  by (simp add: cache_refs_ok_def initial_state_def)

lemma viewerRoute_cache:
  assumes "viewerRoute vc st req n k now = (r, st')"
  shows "singlePageCache st' = singlePageCache st \<and> heap st' = heap st"
  using assms
  by (auto simp: viewerRoute_def generate_def Let_def split: query_value.splits if_splits)

lemma viewerRoute_invariants:
  assumes "viewerRoute vc st req n k now = (r, st')"
  shows "(cache_refs_ok st \<longrightarrow> cache_refs_ok st')
       \<and> (cache_names_ok e st \<longrightarrow> cache_names_ok e st')"
  using viewerRoute_cache [OF assms]
  by (simp add: cache_refs_ok_def cache_names_ok_def)

end
